theory Spec2Isabelle
  imports Complex_Main "HOL-Library.AList" "HOL-Library.Word"
begin

section \<open>The host: pages, CDP sessions and the calls made to them\<close>

text \<open>
  The module \<^verbatim>\<open>cdp.ts\<close> drives a browser tab through the session object of a host
  automation framework. Everything the host does is outside the repository, so it is a
  parameter of the model: every call made to the host is appended to a trace, and the host
  answers as a function of the trace up to and including that call. An answer is either a
  result of the shape the protocol's type declarations give to the method, or an error
  (a rejected promise).

  JavaScript has one number type. It is the type variable \<open>'n\<close> here: the functions that
  compute with numbers use its own \<open>+\<close>, \<open>-\<close>, \<open>*\<close> and \<open>/\<close>, so nothing below depends on
  how the number type rounds. Concrete examples are evaluated over the rationals.

  A JavaScript string is a sequence of UTF-16 code units. The text that is typed into an
  element is indexed by code unit in the source, and is a list of 16-bit words here
  (\<open>utf16\<close>). The other strings (strategies, selectors, attribute names, object ids, class
  names, script text) are only compared and concatenated; \<open>string\<close> stands for them.
\<close>

type_synonym page = nat
type_synonym session = nat
type_synonym element = nat
type_synonym utf16 = "16 word list"

datatype js_error = Error string | TypeError string | ProtocolError string

text \<open>
  A JavaScript value as \<^verbatim>\<open>executeScript\<close> sees it: its \<^verbatim>\<open>typeof\<close> class, and for
  an object or a function the properties that are visible on it (own properties first, then
  those of the prototype chain), which is what \<^verbatim>\<open>Reflect.has\<close> and a property read
  consult. An array is an object.
\<close>

datatype 'n jsval =
    JUndefined
  | JNull
  | JBoolean bool
  | JNumber 'n
  | JString string
  | JBigInt int
  | JSymbol string
  | JFunction "(string \<times> 'n jsval) list"
  | JObject "(string \<times> 'n jsval) list"

text \<open>\<^verbatim>\<open>Protocol.Runtime.CallArgument\<close>: \<^verbatim>\<open>{ value: v }\<close> or \<^verbatim>\<open>{ objectId: v }\<close>.\<close>

datatype 'n call_argument = ArgValue "'n jsval" | ArgObjectId "'n jsval"

text \<open>
  The protocol methods this module sends, each with the parameters the source gives it.
  \<^verbatim>\<open>DOM.focus\<close> and \<^verbatim>\<open>DOM.getContentQuads\<close> take the optional triple
  \<^verbatim>\<open>nodeId\<close>, \<^verbatim>\<open>backendNodeId\<close>, \<^verbatim>\<open>objectId\<close>; \<^verbatim>\<open>Runtime.callFunctionOn\<close>
  takes \<^verbatim>\<open>objectId\<close>, \<^verbatim>\<open>functionDeclaration\<close>, \<^verbatim>\<open>arguments\<close> and the optional
  \<^verbatim>\<open>returnByValue\<close>.
\<close>

datatype 'n cdp_command =
    DOM_requestNode string
  | DOM_focus "'n option" "'n option" "string option"
  | Input_dispatchKeyEvent string utf16
  | DOM_getAttributes 'n
  | DOM_getContentQuads "'n option" "'n option" "string option"
  | DOM_getDocument int
  | DOM_querySelectorAll 'n string
  | DOM_resolveNode 'n
  | Runtime_enable
  | Runtime_evaluate string
  | Runtime_callFunctionOn "string option" string "'n call_argument list" "bool option"
  | Runtime_getProperties "string option" bool

text \<open>
  A call to the host: creating and detaching a session, \<^verbatim>\<open>cdpSession.send\<close>,
  \<^verbatim>\<open>page.keyboard.type\<close>, \<^verbatim>\<open>page.evaluate\<close>, and the two DOM methods the evaluated
  function of \<^verbatim>\<open>scrollPage\<close> calls inside the page.
\<close>

datatype 'n call =
    NewCDPSession page
  | Detach session
  | Send session "'n cdp_command"
  | Keyboard_type page utf16
  | Page_evaluate page
  | ScrollTo element 'n
  | ScrollBy element 'n

text \<open>\<^verbatim>\<open>Protocol.Runtime.RemoteObject\<close>, the fields that are read.\<close>

record 'n remote_object =
  ro_className :: "string option"
  ro_objectId :: "string option"
  ro_value :: "'n jsval"

text \<open>\<^verbatim>\<open>Protocol.Runtime.PropertyDescriptor\<close>, the fields that are read.\<close>

record 'n property_descriptor =
  pd_name :: string
  pd_value :: "'n remote_object option"

text \<open>\<^verbatim>\<open>Protocol.DOM.Quad\<close>: eight numbers, x immediately followed by y for each corner.\<close>

type_synonym 'n quad = "'n \<times> 'n \<times> 'n \<times> 'n \<times> 'n \<times> 'n \<times> 'n \<times> 'n"

text \<open>
  The host. The \<open>reply_\<close> fields answer a call, given the trace that ends with it; there is
  one for each shape of result: nothing, a node id (of \<^verbatim>\<open>DOM.requestNode\<close>, and of the
  root of \<^verbatim>\<open>DOM.getDocument\<close>), an attribute list, a list of quads, a list of node ids, a
  remote object (of \<^verbatim>\<open>DOM.resolveNode\<close>, \<^verbatim>\<open>Runtime.evaluate\<close> and
  \<^verbatim>\<open>Runtime.callFunctionOn\<close>) and a list of property descriptors. The \<open>dom_\<close> fields
  are what the function evaluated inside the page reads there. \<open>parseInt\<close> is the
  JavaScript built-in, \<open>None\<close> standing for \<^verbatim>\<open>NaN\<close>.
\<close>

record 'n host =
  reply_unit :: "'n call list \<Rightarrow> js_error + unit"
  reply_nodeId :: "'n call list \<Rightarrow> js_error + 'n"
  reply_attributes :: "'n call list \<Rightarrow> js_error + string list"
  reply_quads :: "'n call list \<Rightarrow> js_error + 'n quad list"
  reply_nodeIds :: "'n call list \<Rightarrow> js_error + 'n list"
  reply_object :: "'n call list \<Rightarrow> js_error + 'n remote_object"
  reply_properties :: "'n call list \<Rightarrow> js_error + 'n property_descriptor list"
  dom_visualViewport_height :: "'n call list \<Rightarrow> 'n option"
  dom_scrollingElement :: "'n call list \<Rightarrow> element option"
  dom_body :: "'n call list \<Rightarrow> element option"
  dom_scrollHeight :: "'n call list \<Rightarrow> element \<Rightarrow> 'n"
  parseInt :: "string \<Rightarrow> 'n option"

text \<open>
  The state: the module-level \<^verbatim>\<open>cdpSessionByPage\<close> (a \<^verbatim>\<open>Map\<close>, kept in insertion
  order), and on the host's side the sessions that are attached with the page of each, the
  number of session objects created so far (a session object is identified by its number)
  and the trace of calls.
\<close>

record 'n world =
  cdpSessionByPage :: "(page \<times> session) list"
  attached :: "(session \<times> page) list"
  created :: nat
  trace :: "'n call list"

definition initial_world :: "'n world" where
  "initial_world = \<lparr>cdpSessionByPage = [], attached = [], created = 0, trace = []\<rparr>"

text \<open>
  An asynchronous function: it runs from a state and ends with a value or a thrown error,
  in a new state. \<open>await\<close> runs a promise and passes its value on; an error ends the caller.
\<close>

type_synonym ('n, 'a) io = "'n world \<Rightarrow> (js_error + 'a) \<times> 'n world"

definition resolve :: "'a \<Rightarrow> ('n, 'a) io" where
  "resolve x w = (Inr x, w)"

definition throw :: "js_error \<Rightarrow> ('n, 'a) io" where
  "throw e w = (Inl e, w)"

definition await :: "('n, 'a) io \<Rightarrow> ('a \<Rightarrow> ('n, 'b) io) \<Rightarrow> ('n, 'b) io" where
  "await m f w = (case m w of (Inl e, w') \<Rightarrow> (Inl e, w') | (Inr x, w') \<Rightarrow> f x w')"

text \<open>Issuing a call: it is appended to the trace and the host answers.\<close>

definition issue :: "'n call \<Rightarrow> ('n call list \<Rightarrow> js_error + 'a) \<Rightarrow> ('n, 'a) io" where
  "issue c reply w = (let t = trace w @ [c] in (reply t, w\<lparr>trace := t\<rparr>))"

definition send :: "session \<Rightarrow> 'n cdp_command \<Rightarrow> ('n call list \<Rightarrow> js_error + 'a) \<Rightarrow> ('n, 'a) io" where
  "send cdpSession command reply = issue (Send cdpSession command) reply"

text \<open>
  \<^verbatim>\<open>page.context().newCDPSession(page)\<close>: when the host succeeds there is one more
  session object, attached to the page. \<^verbatim>\<open>session.detach()\<close>: when the host succeeds the
  session is no longer attached. A call that fails changes nothing but the trace.
\<close>

definition newCDPSession :: "'n host \<Rightarrow> page \<Rightarrow> ('n, session) io" where
  "newCDPSession H page w =
     (let t = trace w @ [NewCDPSession page] in
      case reply_unit H t of
        Inl e \<Rightarrow> (Inl e, w\<lparr>trace := t\<rparr>)
      | Inr _ \<Rightarrow> (Inr (created w),
                 w\<lparr>attached := attached w @ [(created w, page)],
                   created := Suc (created w), trace := t\<rparr>))"

definition detach :: "'n host \<Rightarrow> session \<Rightarrow> ('n, unit) io" where
  "detach H session w =
     (let t = trace w @ [Detach session] in
      case reply_unit H t of
        Inl e \<Rightarrow> (Inl e, w\<lparr>trace := t\<rparr>)
      | Inr _ \<Rightarrow> (Inr (),
                 w\<lparr>attached := filter (\<lambda>(s, p). s \<noteq> session) (attached w), trace := t\<rparr>))"

section \<open>The session cache\<close>

text \<open>
  \<^verbatim>\<open>cdpSessionByPage.get(page)!\<close>: the \<^verbatim>\<open>!\<close> asserts the entry is there; in both
  functions it follows a test that it is.
\<close>

definition detachCPDSession :: "'n host \<Rightarrow> page \<Rightarrow> ('n, unit) io" where
  "detachCPDSession H page w =
     (if page \<in> fst ` set (cdpSessionByPage w) then
        (case map_of (cdpSessionByPage w) page of
           None \<Rightarrow> throw (TypeError ''Cannot read properties of undefined (reading detach)'') w
         | Some session \<Rightarrow>
             await (detach H session)
               (\<lambda>_ w'. (Inr (), w'\<lparr>cdpSessionByPage := AList.delete page (cdpSessionByPage w')\<rparr>)) w)
      else (Inr (), w))"

definition cache_get :: "page \<Rightarrow> ('n, session) io" where
  "cache_get page w =
     (case map_of (cdpSessionByPage w) page of
        None \<Rightarrow> throw (TypeError ''cdpSessionByPage.get(page) is undefined'') w
      | Some session \<Rightarrow> (Inr session, w))"

definition getCDPSession :: "'n host \<Rightarrow> page \<Rightarrow> ('n, session) io" where
  "getCDPSession H page w =
     (if page \<notin> fst ` set (cdpSessionByPage w) then
        await (newCDPSession H page)
          (\<lambda>session w'.
             cache_get page (w'\<lparr>cdpSessionByPage := AList.update page session (cdpSessionByPage w')\<rparr>)) w
      else cache_get page w)"

text \<open>
  Operations on the cache, run one after the other (no operation starts before the previous
  one has ended); an operation that throws leaves the state it reached.
\<close>

datatype cache_op = GetCDPSession page | DetachCPDSession page

fun run_op :: "'n host \<Rightarrow> cache_op \<Rightarrow> 'n world \<Rightarrow> 'n world" where
  "run_op H (GetCDPSession page) w = snd (getCDPSession H page w)"
| "run_op H (DetachCPDSession page) w = snd (detachCPDSession H page w)"

fun run_ops :: "'n host \<Rightarrow> cache_op list \<Rightarrow> 'n world \<Rightarrow> 'n world" where
  "run_ops H [] w = w"
| "run_ops H (op # ops) w = run_ops H ops (run_op H op w)"

text \<open>
  The invariant of the cache: a page has at most one entry, at most one attached session,
  a session object is attached at most once, the cache holds exactly the attached sessions,
  and every attached session is one of those created.
\<close>

definition wf_world :: "'n world \<Rightarrow> bool" where
  "wf_world w \<longleftrightarrow>
     distinct (map fst (cdpSessionByPage w)) \<and>
     distinct (map snd (attached w)) \<and>
     distinct (map fst (attached w)) \<and>
     set (attached w) = (\<lambda>(p, s). (s, p)) ` set (cdpSessionByPage w) \<and>
     (\<forall>(s, p) \<in> set (attached w). s < created w)"

text \<open>
  Both functions suspend at their \<^verbatim>\<open>await\<close>, after the test of membership and the call
  to the host and before the cache is written, and calls made meanwhile run in between.
  \<open>call_op\<close> is the part of an operation up to its \<^verbatim>\<open>await\<close>; it leaves a continuation
  when the host has answered without error. \<open>resume\<close> is the part after it. A schedule
  starts operations and resumes pending continuations in any order.
\<close>

datatype continuation = SetSession page session | DeleteSession page

fun call_op :: "'n host \<Rightarrow> cache_op \<Rightarrow> 'n world \<Rightarrow> 'n world \<times> continuation option" where
  "call_op H (GetCDPSession page) w =
     (if page \<notin> fst ` set (cdpSessionByPage w) then
        (case newCDPSession H page w of
           (Inl e, w') \<Rightarrow> (w', None)
         | (Inr session, w') \<Rightarrow> (w', Some (SetSession page session)))
      else (w, None))"
| "call_op H (DetachCPDSession page) w =
     (if page \<in> fst ` set (cdpSessionByPage w) then
        (case map_of (cdpSessionByPage w) page of
           None \<Rightarrow> (w, None)
         | Some session \<Rightarrow>
             (case detach H session w of
                (Inl e, w') \<Rightarrow> (w', None)
              | (Inr _, w') \<Rightarrow> (w', Some (DeleteSession page))))
      else (w, None))"

fun resume :: "continuation \<Rightarrow> 'n world \<Rightarrow> 'n world" where
  "resume (SetSession page session) w =
     w\<lparr>cdpSessionByPage := AList.update page session (cdpSessionByPage w)\<rparr>"
| "resume (DeleteSession page) w =
     w\<lparr>cdpSessionByPage := AList.delete page (cdpSessionByPage w)\<rparr>"

datatype scheduled = Call cache_op | Resume nat

fun schedule_step :: "'n host \<Rightarrow> scheduled \<Rightarrow> 'n world \<times> continuation list
    \<Rightarrow> 'n world \<times> continuation list" where
  "schedule_step H (Call op) (w, pending) =
     (case call_op H op w of
        (w', None) \<Rightarrow> (w', pending)
      | (w', Some k) \<Rightarrow> (w', pending @ [k]))"
| "schedule_step H (Resume i) (w, pending) =
     (if i < length pending then (resume (pending ! i) w, take i pending @ drop (Suc i) pending)
      else (w, pending))"

fun run_schedule :: "'n host \<Rightarrow> scheduled list \<Rightarrow> 'n world \<times> continuation list
    \<Rightarrow> 'n world \<times> continuation list" where
  "run_schedule H [] st = st"
| "run_schedule H (x # xs) st = run_schedule H xs (schedule_step H x st)"

text \<open>
  The page an operation or a continuation is about. A schedule has no overlap when no
  operation on a page starts while a continuation for that page is pending; operations on
  different pages may overlap.
\<close>

fun op_page :: "cache_op \<Rightarrow> page" where
  "op_page (GetCDPSession page) = page"
| "op_page (DetachCPDSession page) = page"

fun continuation_page :: "continuation \<Rightarrow> page" where
  "continuation_page (SetSession page session) = page"
| "continuation_page (DeleteSession page) = page"

fun no_overlap :: "'n host \<Rightarrow> scheduled list \<Rightarrow> 'n world \<times> continuation list \<Rightarrow> bool" where
  "no_overlap H [] st = True"
| "no_overlap H (Call op # xs) st =
     (op_page op \<notin> continuation_page ` set (snd st) \<and>
      no_overlap H xs (schedule_step H (Call op) st))"
| "no_overlap H (Resume i # xs) st = no_overlap H xs (schedule_step H (Resume i) st)"

text \<open>
  The invariant of the cache while continuations are pending: as \<open>wf_world\<close>, except that
  a session whose \<^verbatim>\<open>set\<close> is pending is attached and not yet in the cache, and a session
  whose \<^verbatim>\<open>delete\<close> is pending is in the cache and no longer attached.
\<close>

definition schedule_inv :: "'n world \<times> continuation list \<Rightarrow> bool" where
  "schedule_inv st \<longleftrightarrow>
     distinct (map fst (cdpSessionByPage (fst st))) \<and>
     distinct (map fst (attached (fst st))) \<and>
     distinct (map snd (attached (fst st))) \<and>
     distinct (map continuation_page (snd st)) \<and>
     (\<forall>(s, p) \<in> set (attached (fst st)). s < created (fst st)) \<and>
     (\<forall>s p. (s, p) \<in> set (attached (fst st)) \<longleftrightarrow>
        ((p, s) \<in> set (cdpSessionByPage (fst st)) \<and> DeleteSession p \<notin> set (snd st)) \<or>
        SetSession p s \<in> set (snd st)) \<and>
     (\<forall>p s. SetSession p s \<in> set (snd st) \<longrightarrow> p \<notin> fst ` set (cdpSessionByPage (fst st)))"

text \<open>
  What the operation returns when its continuation is resumed: \<^verbatim>\<open>getCDPSession\<close> returns
  \<^verbatim>\<open>cdpSessionByPage.get(page)!\<close> read after its \<^verbatim>\<open>set\<close>, \<^verbatim>\<open>detachCPDSession\<close>
  returns nothing.
\<close>

definition returned :: "continuation \<Rightarrow> 'n world \<Rightarrow> js_error + session option" where
  "returned k w =
     (case k of
        SetSession page session \<Rightarrow>
          (case fst (cache_get page (resume k w)) of Inl e \<Rightarrow> Inl e | Inr s \<Rightarrow> Inr (Some s))
      | DeleteSession page \<Rightarrow> Inr None)"

section \<open>Commands of \<^verbatim>\<open>cdp.ts\<close>\<close>

subsection \<open>\<^verbatim>\<open>sendKeysToElement\<close>\<close>

text \<open>
  The \<^verbatim>\<open>for\<close> loop over the code units of \<^verbatim>\<open>value\<close>, from index \<open>i\<close>:
  \<^verbatim>\<open>value.length\<close> counts code units and \<^verbatim>\<open>value[i]\<close> is the string of the one code
  unit at \<open>i\<close>.
\<close>

function dispatchKeyEvents :: "'n host \<Rightarrow> session \<Rightarrow> utf16 \<Rightarrow> nat \<Rightarrow> ('n, unit) io" where
  "dispatchKeyEvents H cdpSession value i w =
     (if i < length value then
        (case send cdpSession (Input_dispatchKeyEvent ''char'' [value ! i]) (reply_unit H) w of
           (Inl e, w') \<Rightarrow> (Inl e, w')
         | (Inr _, w') \<Rightarrow> dispatchKeyEvents H cdpSession value (i + 1) w')
      else (Inr (), w))"
  by pat_completeness auto
termination
  by (relation "measure (\<lambda>(H, cdpSession, value, i, w). length value - i)") auto

text \<open>
  \<^verbatim>\<open>args.value\<close> is an array of strings and \<^verbatim>\<open>value\<close> its first element,
  \<^verbatim>\<open>undefined\<close> when the array is empty; reading \<^verbatim>\<open>value.length\<close> then throws.
\<close>

definition sendKeysToElement :: "'n host \<Rightarrow> page \<Rightarrow> string \<Rightarrow> utf16 list \<Rightarrow> ('n, bool) io" where
  "sendKeysToElement H page args_id args_value =
     await (getCDPSession H page) (\<lambda>cdpSession.
       let value = (case args_value of [] \<Rightarrow> None | v # _ \<Rightarrow> Some v) in
       await (send cdpSession (DOM_requestNode args_id) (reply_nodeId H)) (\<lambda>nodeId.
       await (send cdpSession (DOM_focus (Some nodeId) None None) (reply_unit H)) (\<lambda>_.
         case value of
           None \<Rightarrow> throw (TypeError ''Cannot read properties of undefined (reading length)'')
         | Some v \<Rightarrow> await (dispatchKeyEvents H cdpSession v 0) (\<lambda>_. resolve True))))"





subsection \<open>\<^verbatim>\<open>getElementAttribute\<close>\<close>

text \<open>
  The \<^verbatim>\<open>for\<close> loop over \<^verbatim>\<open>attributes\<close>, from index \<open>i\<close>. A read past the end of a
  JavaScript array gives \<^verbatim>\<open>undefined\<close>, and so does a function that ends without
  \<^verbatim>\<open>return\<close>: both are \<open>None\<close>.
\<close>

function attributeLoop :: "string list \<Rightarrow> string \<Rightarrow> nat \<Rightarrow> string option" where
  "attributeLoop attributes name i =
     (if i < length attributes then
        (if attributes ! i = name then
           (if i + 1 < length attributes then Some (attributes ! (i + 1)) else None)
         else attributeLoop attributes name (i + 1))
      else None)"
  by pat_completeness auto
termination
  by (relation "measure (\<lambda>(attributes, name, i). length attributes - i)") auto

definition getElementAttribute :: "'n host \<Rightarrow> page \<Rightarrow> string \<Rightarrow> string \<Rightarrow> ('n, string option) io" where
  "getElementAttribute H page args_id args_name =
     await (getCDPSession H page) (\<lambda>cdpSession.
     await (send cdpSession (DOM_requestNode args_id) (reply_nodeId H)) (\<lambda>nodeId.
     await (send cdpSession (DOM_getAttributes nodeId) (reply_attributes H)) (\<lambda>attributes.
       resolve (attributeLoop attributes args_name 0))))"

text \<open>
  The specification's reading of the attribute list, for comparison: the list is name,
  value, name, value, ...; the result is the value that follows the requested name, and
  nothing when no name matches.
\<close>

fun spec_attribute_value :: "string list \<Rightarrow> string \<Rightarrow> string option" where
  "spec_attribute_value (n # v # rest) name =
     (if n = name then Some v else spec_attribute_value rest name)"
| "spec_attribute_value _ name = None"

subsection \<open>\<^verbatim>\<open>getContentQuads\<close>\<close>

record 'n content_quads =
  topLeftX :: 'n
  topLeftY :: 'n
  topRightX :: 'n
  topRightY :: 'n
  bottomRightX :: 'n
  bottomRightY :: 'n
  bottomLeftX :: 'n
  bottomLeftY :: 'n
  width :: 'n
  height :: 'n
  centerX :: 'n
  centerY :: 'n

text \<open>
  The geometry computed from \<^verbatim>\<open>quadsResponse.quads[0]\<close>. Destructuring
  \<^verbatim>\<open>undefined\<close>, the first element of an empty array, throws.
\<close>

definition quadGeometry :: "'n::{plus,minus,inverse,numeral} quad \<Rightarrow> 'n content_quads" where
  "quadGeometry q =
     (case q of (topLeftX', topLeftY', topRightX', topRightY',
                 bottomRightX', bottomRightY', bottomLeftX', bottomLeftY') \<Rightarrow>
        let width' = topRightX' - topLeftX';
            height' = bottomRightY' - topRightY';
            centerX' = topLeftX' + (width' / 2);
            centerY' = topRightY' + (height' / 2)
        in \<lparr>topLeftX = topLeftX', topLeftY = topLeftY',
            topRightX = topRightX', topRightY = topRightY',
            bottomRightX = bottomRightX', bottomRightY = bottomRightY',
            bottomLeftX = bottomLeftX', bottomLeftY = bottomLeftY',
            width = width', height = height',
            centerX = centerX', centerY = centerY'\<rparr>)"

definition getContentQuads ::
  "'n::{plus,minus,inverse,numeral} host \<Rightarrow> page \<Rightarrow> 'n option \<Rightarrow> 'n option \<Rightarrow> string option
     \<Rightarrow> ('n, 'n content_quads) io" where
  "getContentQuads H page nodeId backendNodeId objectId =
     await (getCDPSession H page) (\<lambda>cdpSession.
     await (send cdpSession (DOM_getContentQuads nodeId backendNodeId objectId) (reply_quads H))
       (\<lambda>quads.
          case quads of
            [] \<Rightarrow> throw (TypeError ''undefined is not iterable'')
          | q # _ \<Rightarrow> resolve (quadGeometry q)))"

subsection \<open>\<^verbatim>\<open>focusElement\<close>\<close>


subsection \<open>\<^verbatim>\<open>querySelectorAll\<close> and \<^verbatim>\<open>findElements\<close>\<close>

text \<open>
  An element reference \<^verbatim>\<open>{ [WEBDRIVER_ELEMENT_KEY]: objectId }\<close>: the key and the object
  id, which the protocol leaves optional. The constant \<^verbatim>\<open>WEBDRIVER_ELEMENT_KEY\<close> is imported
  from \<^verbatim>\<open>config.js\<close>; it is a parameter of the functions that use it.
\<close>

datatype element_ref = ElementRef string "string option"

text \<open>
  \<^verbatim>\<open>Promise.all\<close> over \<^verbatim>\<open>nodeIds.map(async ...)\<close>: every \<^verbatim>\<open>DOM.resolveNode\<close> is
  sent, in the order of the node ids, before any answer is awaited; the whole fails when
  one of them fails (with the error of the first in the list, where the source has the
  first in time).
\<close>

fun resolveNodes :: "'n host \<Rightarrow> session \<Rightarrow> 'n list \<Rightarrow> ('n, 'n remote_object list) io" where
  "resolveNodes H cdpSession [] w = (Inr [], w)"
| "resolveNodes H cdpSession (nodeId # nodeIds) w =
     (case send cdpSession (DOM_resolveNode nodeId) (reply_object H) w of
        (r, w') \<Rightarrow>
          (case resolveNodes H cdpSession nodeIds w' of
             (rs, w'') \<Rightarrow>
               (case r of
                  Inl e \<Rightarrow> (Inl e, w'')
                | Inr node \<Rightarrow>
                    (case rs of Inl e \<Rightarrow> (Inl e, w'') | Inr nodes \<Rightarrow> (Inr (node # nodes), w'')))))"

definition querySelectorAll :: "'n host \<Rightarrow> string \<Rightarrow> page \<Rightarrow> string \<Rightarrow> ('n, element_ref list) io" where
  "querySelectorAll H WEBDRIVER_ELEMENT_KEY page selector =
     await (getCDPSession H page) (\<lambda>cdpSession.
     await (send cdpSession (DOM_getDocument (- 1)) (reply_nodeId H)) (\<lambda>root_nodeId.
     await (send cdpSession (DOM_querySelectorAll root_nodeId selector) (reply_nodeIds H)) (\<lambda>nodeIds.
     await (resolveNodes H cdpSession nodeIds) (\<lambda>resolvedNodes.
       resolve (map (\<lambda>node. ElementRef WEBDRIVER_ELEMENT_KEY (ro_objectId node)) resolvedNodes)))))"

definition findElements :: "'n host \<Rightarrow> string \<Rightarrow> page \<Rightarrow> string \<Rightarrow> string \<Rightarrow> ('n, element_ref list) io" where
  "findElements H WEBDRIVER_ELEMENT_KEY page args_using args_value =
     (if args_value = ''iframe'' then resolve []
      else if args_using = ''css selector'' \<or> args_using = ''tag name'' then
        querySelectorAll H WEBDRIVER_ELEMENT_KEY page args_value
      else throw (Error (''Unsupported findElements strategy '' @ args_using)))"

subsection \<open>\<^verbatim>\<open>executeScript\<close>\<close>

fun typeof :: "'n jsval \<Rightarrow> string" where
  "typeof JUndefined = ''undefined''"
| "typeof JNull = ''object''"
| "typeof (JBoolean b) = ''boolean''"
| "typeof (JNumber n) = ''number''"
| "typeof (JString s) = ''string''"
| "typeof (JBigInt i) = ''bigint''"
| "typeof (JSymbol s) = ''symbol''"
| "typeof (JFunction ps) = ''function''"
| "typeof (JObject ps) = ''object''"

text \<open>
  The truth value of a JavaScript value in a condition. For a number it is false at zero
  (and at \<^verbatim>\<open>NaN\<close>, which \<open>'n\<close> does not single out; no number reaches the one condition
  that uses \<open>truthy\<close>).
\<close>

fun truthy :: "'n::zero jsval \<Rightarrow> bool" where
  "truthy JUndefined = False"
| "truthy JNull = False"
| "truthy (JBoolean b) = b"
| "truthy (JNumber n) = (n \<noteq> 0)"
| "truthy (JString s) = (s \<noteq> [])"
| "truthy (JBigInt i) = (i \<noteq> 0)"
| "truthy (JSymbol s) = True"
| "truthy (JFunction ps) = True"
| "truthy (JObject ps) = True"

text \<open>
  \<^verbatim>\<open>Reflect.has(arg, key)\<close> and \<^verbatim>\<open>arg[key]\<close>. The source reaches them only for a
  value that is not null and whose \<^verbatim>\<open>typeof\<close> is \<^verbatim>\<open>object\<close>.
\<close>

fun Reflect_has :: "'n jsval \<Rightarrow> string \<Rightarrow> bool" where
  "Reflect_has (JObject ps) key = (key \<in> fst ` set ps)"
| "Reflect_has (JFunction ps) key = (key \<in> fst ` set ps)"
| "Reflect_has _ key = False"

fun property :: "'n jsval \<Rightarrow> string \<Rightarrow> 'n jsval" where
  "property (JObject ps) key = (case map_of ps key of None \<Rightarrow> JUndefined | Some v \<Rightarrow> v)"
| "property (JFunction ps) key = (case map_of ps key of None \<Rightarrow> JUndefined | Some v \<Rightarrow> v)"
| "property _ key = JUndefined"

text \<open>The function mapped over \<^verbatim>\<open>args.args\<close>.\<close>

definition functionArg :: "string \<Rightarrow> 'n::zero jsval \<Rightarrow> 'n call_argument" where
  "functionArg WEBDRIVER_ELEMENT_KEY arg =
     (if typeof arg = ''boolean'' \<or> typeof arg = ''string'' \<or> typeof arg = ''number'' then
        ArgValue arg
      else if truthy arg \<and> typeof arg = ''object'' \<and> Reflect_has arg WEBDRIVER_ELEMENT_KEY then
        ArgObjectId (property arg WEBDRIVER_ELEMENT_KEY)
      else ArgValue JUndefined)"

text \<open>
  What \<^verbatim>\<open>executeScript\<close> returns: an array of element references, one element
  reference, or the value of the second call.
\<close>

datatype 'n script_result =
    Elements "element_ref list"
  | Element element_ref
  | Value "'n jsval"

definition executeScript ::
  "'n::zero host \<Rightarrow> string \<Rightarrow> page \<Rightarrow> string \<Rightarrow> 'n jsval list \<Rightarrow> ('n, 'n script_result) io" where
  "executeScript H WEBDRIVER_ELEMENT_KEY page args_script args_args =
     (let functionDeclaration = ''function() { '' @ args_script @ '' }'';
          functionArgs = map (functionArg WEBDRIVER_ELEMENT_KEY) args_args
      in
      await (getCDPSession H page) (\<lambda>cdpSession.
      await (send cdpSession Runtime_enable (reply_unit H)) (\<lambda>_.
      await (send cdpSession (Runtime_evaluate ''window'') (reply_object H)) (\<lambda>window.
      await (send cdpSession
               (Runtime_callFunctionOn (ro_objectId window) functionDeclaration functionArgs None)
               (reply_object H)) (\<lambda>returnedRef.
        if ro_className returnedRef = Some ''NodeList'' then
          await (send cdpSession (Runtime_getProperties (ro_objectId returnedRef) True)
                   (reply_properties H)) (\<lambda>nodeProperties.
            resolve (Elements
              (List.map_filter
                 (\<lambda>e. if parseInt H (pd_name e) \<noteq> None then
                        Some (ElementRef WEBDRIVER_ELEMENT_KEY
                                (case pd_value e of None \<Rightarrow> None | Some v \<Rightarrow> ro_objectId v))
                      else None)
                 nodeProperties)))
        else if ro_className returnedRef = Some ''HTMLHtmlElement'' then
          resolve (Element (ElementRef WEBDRIVER_ELEMENT_KEY (ro_objectId returnedRef)))
        else
          await (send cdpSession
                   (Runtime_callFunctionOn (ro_objectId window) functionDeclaration functionArgs
                      (Some True))
                   (reply_object H)) (\<lambda>returnedValue.
            resolve (Value (ro_value returnedValue))))))))"

text \<open>How many of the calls in a trace are \<^verbatim>\<open>Runtime.callFunctionOn\<close>: each one runs the script.\<close>

definition callFunctionOn_count :: "'n call list \<Rightarrow> nat" where
  "callFunctionOn_count t =
     length (filter (\<lambda>c. case c of
                             Send s (Runtime_callFunctionOn objectId fd fargs rbv) \<Rightarrow> True
                           | _ \<Rightarrow> False) t)"

section \<open>Commands of the second module\<close>

text \<open>
  The second source file imports \<^verbatim>\<open>cdp.ts\<close> as \<^verbatim>\<open>cdp\<close> and has a
  \<^verbatim>\<open>sendKeysToElement\<close> of its own, named \<open>sendKeysToElement_keyboard\<close> here. It
  passes \<^verbatim>\<open>parseInt(args.id)\<close> as \<^verbatim>\<open>backendNodeId\<close>; a \<^verbatim>\<open>NaN\<close> there is \<open>None\<close>,
  as an absent parameter is.
\<close>

subsection \<open>\<^verbatim>\<open>sendKeys\<close> and \<^verbatim>\<open>sendKeysToElement\<close>\<close>



subsection \<open>\<^verbatim>\<open>scrollPage\<close>\<close>

text \<open>
  \<^verbatim>\<open>elementToScroll.scrollTo({ top })\<close> and \<^verbatim>\<open>elementToScroll.scrollBy({ top })\<close>,
  inside the page. \<^verbatim>\<open>document.scrollingElement || document.body\<close> can be null, and a
  method call on null throws.
\<close>

definition scrollTo :: "element option \<Rightarrow> 'n \<Rightarrow> ('n, unit) io" where
  "scrollTo elementToScroll top' w =
     (case elementToScroll of
        None \<Rightarrow> (Inl (TypeError ''Cannot read properties of null (reading scrollTo)''), w)
      | Some e \<Rightarrow> (Inr (), w\<lparr>trace := trace w @ [ScrollTo e top']\<rparr>))"

definition scrollBy :: "element option \<Rightarrow> 'n \<Rightarrow> ('n, unit) io" where
  "scrollBy elementToScroll top' w =
     (case elementToScroll of
        None \<Rightarrow> (Inl (TypeError ''Cannot read properties of null (reading scrollBy)''), w)
      | Some e \<Rightarrow> (Inr (), w\<lparr>trace := trace w @ [ScrollBy e top']\<rparr>))"

text \<open>The function that \<^verbatim>\<open>scrollPage\<close> passes to \<^verbatim>\<open>page.evaluate\<close>.\<close>

definition scrollPage_evaluated ::
  "'n::{zero,inverse,numeral,power,uminus} host \<Rightarrow> string \<Rightarrow> ('n, unit) io" where
  "scrollPage_evaluated H target w =
     (let viewportHeight =
            (case dom_visualViewport_height H (trace w) of None \<Rightarrow> 720 | Some h \<Rightarrow> h);
          relativeScrollDistance = 0.75 * viewportHeight;
          elementToScroll =
            (case dom_scrollingElement H (trace w) of
               None \<Rightarrow> dom_body H (trace w)
             | Some e \<Rightarrow> Some e)
      in
      if target = ''top'' then scrollTo elementToScroll 0 w
      else if target = ''bottom'' then
        (case elementToScroll of
           None \<Rightarrow> (Inl (TypeError ''Cannot read properties of null (reading scrollTo)''), w)
         | Some e \<Rightarrow> scrollTo elementToScroll (dom_scrollHeight H (trace w) e) w)
      else if target = ''up'' then scrollBy elementToScroll (- relativeScrollDistance) w
      else if target = ''down'' then scrollBy elementToScroll relativeScrollDistance w
      else (Inl (Error (''Unsupported scroll target '' @ target)), w))"

definition scrollPage ::
  "'n::{zero,inverse,numeral,power,uminus} host \<Rightarrow> page \<Rightarrow> string \<Rightarrow> ('n, unit) io" where
  "scrollPage H page args_target =
     await (issue (Page_evaluate page) (reply_unit H)) (\<lambda>_. scrollPage_evaluated H args_target)"

section \<open>Concrete hosts\<close>

text \<open>
  A decimal \<open>parseInt\<close> for the concrete hosts: an optional sign and the longest prefix of
  decimal digits, \<open>None\<close> when there is no digit.
\<close>

definition digit_value :: "char \<Rightarrow> nat option" where
  "digit_value c =
     (let k = of_char c :: nat in if 48 \<le> k \<and> k \<le> 57 then Some (k - 48) else None)"

fun parse_digits :: "string \<Rightarrow> nat \<Rightarrow> nat" where
  "parse_digits [] acc = acc"
| "parse_digits (c # cs) acc =
     (case digit_value c of None \<Rightarrow> acc | Some d \<Rightarrow> parse_digits cs (10 * acc + d))"

definition parse_unsigned :: "string \<Rightarrow> nat option" where
  "parse_unsigned s =
     (case s of
        [] \<Rightarrow> None
      | c # cs \<Rightarrow> (if digit_value c = None then None else Some (parse_digits s 0)))"

definition parseInt_decimal :: "string \<Rightarrow> rat option" where
  "parseInt_decimal s =
     (case s of
        [] \<Rightarrow> None
      | c # cs \<Rightarrow>
          if c = CHR ''-'' then map_option (\<lambda>n. - of_nat n) (parse_unsigned cs)
          else if c = CHR ''+'' then map_option of_nat (parse_unsigned cs)
          else map_option of_nat (parse_unsigned s))"

text \<open>
  A host on which every call succeeds, with one element that carries the attribute
  \<^verbatim>\<open>id="foo"\<close> and has the content quad (0,0), (10,0), (10,20), (0,20).
\<close>

definition host0 :: "rat host" where
  "host0 =
     \<lparr>reply_unit = (\<lambda>t. Inr ()),
      reply_nodeId = (\<lambda>t. Inr 7),
      reply_attributes = (\<lambda>t. Inr [''id'', ''foo'']),
      reply_quads = (\<lambda>t. Inr [(0, 0, 10, 0, 10, 20, 0, 20)]),
      reply_nodeIds = (\<lambda>t. Inr [3, 4]),
      reply_object =
        (\<lambda>t. Inr \<lparr>ro_className = Some ''Object'', ro_objectId = Some ''obj-1'',
                  ro_value = JNumber 42\<rparr>),
      reply_properties = (\<lambda>t. Inr []),
      dom_visualViewport_height = (\<lambda>t. Some 800),
      dom_scrollingElement = (\<lambda>t. Some 1),
      dom_body = (\<lambda>t. Some 0),
      dom_scrollHeight = (\<lambda>t e. 3000),
      parseInt = parseInt_decimal\<rparr>"

text \<open>The same host with an element \<^verbatim>\<open><div class="id" id="foo">\<close>.\<close>

definition host_class_id :: "rat host" where
  "host_class_id = host0\<lparr>reply_attributes := (\<lambda>t. Inr [''class'', ''id'', ''id'', ''foo''])\<rparr>"

text \<open>The same host with an element \<^verbatim>\<open><div class="id" title="x">\<close>, which has no id.\<close>

definition host_class_title :: "rat host" where
  "host_class_title = host0\<lparr>reply_attributes := (\<lambda>t. Inr [''class'', ''id'', ''title'', ''x''])\<rparr>"

text \<open>The same host on which every script returns a node list.\<close>

definition host_NodeList :: "rat host" where
  "host_NodeList =
     host0\<lparr>reply_object :=
             (\<lambda>t. Inr \<lparr>ro_className = Some ''NodeList'', ro_objectId = Some ''obj-2'',
                       ro_value = JUndefined\<rparr>)\<rparr>"

text \<open>The same host on which every script returns the root element.\<close>

definition host_HTMLHtmlElement :: "rat host" where
  "host_HTMLHtmlElement =
     host0\<lparr>reply_object :=
             (\<lambda>t. Inr \<lparr>ro_className = Some ''HTMLHtmlElement'', ro_objectId = Some ''obj-3'',
                       ro_value = JUndefined\<rparr>)\<rparr>"

text \<open>The same host in a page without a visual viewport.\<close>

definition host_no_viewport :: "rat host" where
  "host_no_viewport = host0\<lparr>dom_visualViewport_height := (\<lambda>t. None)\<rparr>"

section \<open>The session cache: proofs\<close>

lemma wf_initial: "wf_world initial_world"
  by (simp add: wf_world_def initial_world_def)

lemma getCDPSession_cached:
  "map_of (cdpSessionByPage w) page = Some s \<Longrightarrow> getCDPSession H page w = (Inr s, w)"
  by (auto simp: getCDPSession_def cache_get_def dest: map_of_SomeD weak_map_of_SomeI intro: rev_image_eqI)

lemma cached_iff: "page \<in> fst ` set m \<longleftrightarrow> map_of m page \<noteq> None"
  by (simp add: map_of_eq_None_iff)

lemma getCDPSession_create:
  assumes "map_of (cdpSessionByPage w) page = None"
    and "reply_unit H (trace w @ [NewCDPSession page]) = Inr ()"
  shows "getCDPSession H page w =
           (Inr (created w),
            w\<lparr>cdpSessionByPage := AList.update page (created w) (cdpSessionByPage w),
              attached := attached w @ [(created w, page)],
              created := Suc (created w),
              trace := trace w @ [NewCDPSession page]\<rparr>)"
  using assms
  by (simp add: getCDPSession_def cached_iff await_def newCDPSession_def cache_get_def
      update_conv' Let_def)

lemma getCDPSession_fail:
  assumes "map_of (cdpSessionByPage w) page = None"
    and "reply_unit H (trace w @ [NewCDPSession page]) = Inl e"
  shows "getCDPSession H page w = (Inl e, w\<lparr>trace := trace w @ [NewCDPSession page]\<rparr>)"
  using assms
  by (simp add: getCDPSession_def cached_iff await_def newCDPSession_def Let_def)

lemma detach_absent:
  "map_of (cdpSessionByPage w) page = None \<Longrightarrow> detachCPDSession H page w = (Inr (), w)"
  by (simp add: detachCPDSession_def cached_iff)

lemma detach_ok:
  assumes "map_of (cdpSessionByPage w) page = Some s"
    and "reply_unit H (trace w @ [Detach s]) = Inr ()"
  shows "detachCPDSession H page w =
           (Inr (),
            w\<lparr>cdpSessionByPage := AList.delete page (cdpSessionByPage w),
              attached := filter (\<lambda>(s', p). s' \<noteq> s) (attached w),
              trace := trace w @ [Detach s]\<rparr>)"
  using assms
  by (auto simp: detachCPDSession_def await_def detach_def Let_def cached_iff)

lemma detach_fail:
  assumes "map_of (cdpSessionByPage w) page = Some s"
    and "reply_unit H (trace w @ [Detach s]) = Inl e"
  shows "detachCPDSession H page w = (Inl e, w\<lparr>trace := trace w @ [Detach s]\<rparr>)"
  using assms
  by (auto simp: detachCPDSession_def await_def detach_def Let_def cached_iff)


lemma update_fresh: "k \<notin> fst ` set m \<Longrightarrow> AList.update k v m = m @ [(k, v)]"
  by (induction m) auto

lemma wf_getCDPSession: "wf_world w \<Longrightarrow> wf_world (snd (getCDPSession H page w))"
proof (cases "map_of (cdpSessionByPage w) page")
  case (Some s)
  assume "wf_world w"
  with Some show ?thesis by (simp add: getCDPSession_cached)
next
  case None
  assume wf: "wf_world w"
  show ?thesis
  proof (cases "reply_unit H (trace w @ [NewCDPSession page])")
    case (Inl e)
    with None wf show ?thesis by (simp add: getCDPSession_fail wf_world_def)
  next
    case (Inr u)
    from None have fresh: "page \<notin> fst ` set (cdpSessionByPage w)" by (simp add: cached_iff)
    from wf fresh have "page \<notin> snd ` set (attached w)"
      by (force simp: wf_world_def)
    moreover from wf have "created w \<notin> fst ` set (attached w)"
      by (force simp: wf_world_def)
    ultimately show ?thesis using None Inr wf fresh
      by (auto simp: getCDPSession_create wf_world_def update_fresh less_Suc_eq)
  qed
qed

lemma wf_detachCPDSession: "wf_world w \<Longrightarrow> wf_world (snd (detachCPDSession H page w))"
proof (cases "map_of (cdpSessionByPage w) page")
  case None
  assume "wf_world w"
  with None show ?thesis by (simp add: detach_absent)
next
  case (Some s)
  assume wf: "wf_world w"
  show ?thesis
  proof (cases "reply_unit H (trace w @ [Detach s])")
    case (Inl e)
    with Some wf show ?thesis by (simp add: detach_fail wf_world_def)
  next
    case (Inr u)
    from Some have mem: "(page, s) \<in> set (cdpSessionByPage w)" by (rule map_of_SomeD)
    have uniq: "\<And>p' s'. (p', s') \<in> set (cdpSessionByPage w) \<Longrightarrow> (s' = s) = (p' = page)"
    proof -
      fix p' s' assume m: "(p', s') \<in> set (cdpSessionByPage w)"
      from wf have d1: "distinct (map fst (cdpSessionByPage w))" by (simp add: wf_world_def)
      from wf have d2: "distinct (map fst (attached w))" by (simp add: wf_world_def)
      from wf have eq: "set (attached w) = (\<lambda>(p, s). (s, p)) ` set (cdpSessionByPage w)"
        by (simp add: wf_world_def)
      from m eq have a1: "(s', p') \<in> set (attached w)" by force
      from mem eq have a2: "(s, page) \<in> set (attached w)" by force
      show "(s' = s) = (p' = page)"
      proof
        assume "s' = s"
        with a1 a2 d2 show "p' = page" by (metis eq_key_imp_eq_value)
      next
        assume "p' = page"
        with m mem d1 show "s' = s" by (metis eq_key_imp_eq_value)
      qed
    qed
    have del: "AList.delete page (cdpSessionByPage w) = filter (\<lambda>(p', s'). p' \<noteq> page) (cdpSessionByPage w)"
      by (auto simp: AList.delete_eq intro: filter_cong)
    from wf Some Inr show ?thesis
      apply (simp add: detach_ok wf_world_def del distinct_map_filter)
      apply (auto simp: uniq)
      using uniq apply blast
      done
  qed
qed


lemma wf_run_op: "wf_world w \<Longrightarrow> wf_world (run_op H op w)"
  by (cases op) (simp_all add: wf_getCDPSession wf_detachCPDSession)

lemma wf_run_ops: "wf_world w \<Longrightarrow> wf_world (run_ops H ops w)"
  by (induction ops arbitrary: w) (simp_all add: wf_run_op)

lemma at_most_one_key:
  "distinct (map fst xs) \<Longrightarrow> length (filter (\<lambda>(k, v). k = a) xs) \<le> 1"
  by (induction xs) (auto simp: filter_empty_conv image_iff)

lemma at_most_one_value:
  "distinct (map snd xs) \<Longrightarrow> length (filter (\<lambda>(k, v). v = a) xs) \<le> 1"
  by (induction xs) (auto simp: filter_empty_conv image_iff)

lemma created_getCDPSession: "created w \<le> created (snd (getCDPSession H page w))"
  by (cases "map_of (cdpSessionByPage w) page"; cases "reply_unit H (trace w @ [NewCDPSession page])")
     (simp_all add: getCDPSession_cached getCDPSession_create getCDPSession_fail)

lemma created_detachCPDSession: "created (snd (detachCPDSession H page w)) = created w"
proof (cases "map_of (cdpSessionByPage w) page")
  case None
  then show ?thesis by (simp add: detach_absent)
next
  case (Some s)
  then show ?thesis
    by (cases "reply_unit H (trace w @ [Detach s])") (simp_all add: detach_ok detach_fail)
qed

lemma created_run_op: "created w \<le> created (run_op H op w)"
  by (cases op) (simp_all add: created_getCDPSession created_detachCPDSession)

lemma created_run_ops: "created w \<le> created (run_ops H ops w)"
proof (induction ops arbitrary: w)
  case Nil
  show ?case by simp
next
  case (Cons op ops)
  have "created w \<le> created (run_op H op w)" by (rule created_run_op)
  also have "\<dots> \<le> created (run_ops H ops (run_op H op w))" by (rule Cons.IH)
  finally show ?case by simp
qed

lemma cached_getCDPSession_other:
  assumes "map_of (cdpSessionByPage w) page = Some s"
  shows "map_of (cdpSessionByPage (snd (getCDPSession H page' w))) page = Some s"
proof (cases "map_of (cdpSessionByPage w) page'")
  case (Some s')
  with assms show ?thesis by (simp add: getCDPSession_cached)
next
  case None
  with assms have "page' \<noteq> page" by auto
  with assms None show ?thesis
    by (cases "reply_unit H (trace w @ [NewCDPSession page'])")
       (simp_all add: getCDPSession_create getCDPSession_fail update_conv')
qed

lemma cached_detachCPDSession_other:
  assumes "map_of (cdpSessionByPage w) page = Some s" and "page' \<noteq> page"
  shows "map_of (cdpSessionByPage (snd (detachCPDSession H page' w))) page = Some s"
proof (cases "map_of (cdpSessionByPage w) page'")
  case None
  with assms show ?thesis by (simp add: detach_absent)
next
  case (Some s')
  with assms show ?thesis
    by (cases "reply_unit H (trace w @ [Detach s'])") (simp_all add: detach_ok detach_fail)
qed

lemma cached_run_ops:
  assumes "map_of (cdpSessionByPage w) page = Some s" and "DetachCPDSession page \<notin> set ops"
  shows "map_of (cdpSessionByPage (run_ops H ops w)) page = Some s"
  using assms
proof (induction ops arbitrary: w)
  case Nil
  then show ?case by simp
next
  case (Cons op ops)
  have "map_of (cdpSessionByPage (run_op H op w)) page = Some s"
  proof (cases op)
    case (GetCDPSession page')
    with Cons.prems show ?thesis by (simp add: cached_getCDPSession_other)
  next
    case (DetachCPDSession page')
    with Cons.prems show ?thesis by (simp add: cached_detachCPDSession_other)
  qed
  with Cons show ?case by simp
qed

text \<open>
  Overlapping operations. An operation that is resumed at once is the operation run as a
  whole, and a sequence of operations run one after the other is a schedule without
  overlap. The cache never holds two entries for a page, whatever the schedule.
\<close>

lemma call_then_resume:
  "run_schedule H [Call op, Resume 0] (w, []) = (run_op H op w, [])"
  by (cases op)
     (auto simp: getCDPSession_def detachCPDSession_def await_def cache_get_def throw_def
        newCDPSession_def detach_def Let_def update_conv' map_of_eq_None_iff
        split: sum.splits option.splits prod.splits)

lemma cache_call_op: "cdpSessionByPage (fst (call_op H op w)) = cdpSessionByPage w"
  by (cases op)
     (auto simp: newCDPSession_def detach_def Let_def split: sum.splits option.splits prod.splits)

lemma distinct_resume:
  "distinct (map fst (cdpSessionByPage w)) \<Longrightarrow> distinct (map fst (cdpSessionByPage (resume k w)))"
  by (cases k) (simp_all add: distinct_update distinct_delete)

lemma distinct_schedule_step:
  "distinct (map fst (cdpSessionByPage (fst st))) \<Longrightarrow>
   distinct (map fst (cdpSessionByPage (fst (schedule_step H x st))))"
proof (cases st)
  case (Pair w pending)
  assume d: "distinct (map fst (cdpSessionByPage (fst st)))"
  show ?thesis
  proof (cases x)
    case (Call op)
    from cache_call_op [of H op w] d Pair Call show ?thesis
      by (cases "call_op H op w") (auto split: option.splits)
  next
    case (Resume i)
    with d Pair show ?thesis by (simp add: distinct_resume)
  qed
qed

lemma distinct_run_schedule:
  "distinct (map fst (cdpSessionByPage (fst st))) \<Longrightarrow>
   distinct (map fst (cdpSessionByPage (fst (run_schedule H xs st))))"
  by (induction xs arbitrary: st) (simp_all add: distinct_schedule_step)

lemma schedule_inv_initial: "wf_world w \<Longrightarrow> schedule_inv (w, [])"
  by (auto simp: wf_world_def schedule_inv_def)

lemma call_get_cases:
  "call_op H (GetCDPSession page) w = (w', k) \<Longrightarrow>
     (w' = w \<and> k = None \<and> page \<in> fst ` set (cdpSessionByPage w)) \<or>
     (w' = w\<lparr>trace := trace w @ [NewCDPSession page]\<rparr> \<and> k = None) \<or>
     (page \<notin> fst ` set (cdpSessionByPage w) \<and>
      w' = w\<lparr>attached := attached w @ [(created w, page)], created := Suc (created w),
             trace := trace w @ [NewCDPSession page]\<rparr> \<and>
      k = Some (SetSession page (created w)))"
  by (auto simp: newCDPSession_def Let_def split: if_splits sum.splits)

lemma call_detach_cases:
  "call_op H (DetachCPDSession page) w = (w', k) \<Longrightarrow>
     (w' = w \<and> k = None) \<or>
     (w' = w\<lparr>trace := trace w @ [Detach (the (map_of (cdpSessionByPage w) page))]\<rparr> \<and> k = None) \<or>
     (\<exists>s. map_of (cdpSessionByPage w) page = Some s \<and>
      w' = w\<lparr>attached := filter (\<lambda>(s', p). s' \<noteq> s) (attached w),
             trace := trace w @ [Detach s]\<rparr> \<and>
      k = Some (DeleteSession page))"
  by (auto simp: detach_def Let_def split: if_splits sum.splits option.splits)

lemma schedule_inv_call_get:
  assumes inv: "schedule_inv (w, pending)"
    and free: "page \<notin> continuation_page ` set pending"
  shows "schedule_inv (schedule_step H (Call (GetCDPSession page)) (w, pending))"
proof (cases "call_op H (GetCDPSession page) w")
  case (Pair w' k)
  from call_get_cases [OF Pair] show ?thesis
  proof (elim disjE conjE)
    assume "w' = w" "k = None"
    with Pair inv show ?thesis by simp
  next
    assume "w' = w\<lparr>trace := trace w @ [NewCDPSession page]\<rparr>" "k = None"
    with Pair inv show ?thesis by (simp add: schedule_inv_def)
  next
    assume fresh: "page \<notin> fst ` set (cdpSessionByPage w)"
      and w': "w' = w\<lparr>attached := attached w @ [(created w, page)], created := Suc (created w),
             trace := trace w @ [NewCDPSession page]\<rparr>"
      and k: "k = Some (SetSession page (created w))"
    from inv have att: "\<And>s p. (s, p) \<in> set (attached w) \<longleftrightarrow>
        ((p, s) \<in> set (cdpSessionByPage w) \<and> DeleteSession p \<notin> set pending) \<or>
        SetSession p s \<in> set pending"
      by (simp add: schedule_inv_def)
    have nopage: "page \<notin> snd ` set (attached w)"
    proof
      assume "page \<in> snd ` set (attached w)"
      then obtain s where "(s, page) \<in> set (attached w)" by auto
      with att have "(page, s) \<in> set (cdpSessionByPage w) \<or> SetSession page s \<in> set pending"
        by blast
      with fresh free show False by (force simp: image_iff)
    qed
    from inv have "created w \<notin> fst ` set (attached w)"
      by (force simp: schedule_inv_def)
    with inv nopage free fresh Pair w' k att show ?thesis
      by (auto simp: schedule_inv_def less_Suc_eq image_iff)
  qed
qed

lemma remove_nth_set:
  assumes "i < length xs" and "distinct xs"
  shows "set (take i xs @ drop (Suc i) xs) = set xs - {xs ! i}"
proof -
  from assms(1) have xs: "xs = take i xs @ xs ! i # drop (Suc i) xs" by (rule id_take_nth_drop)
  from assms(2) have "distinct (take i xs @ xs ! i # drop (Suc i) xs)"
    by (subst xs [symmetric])
  then have n: "xs ! i \<notin> set (take i xs) \<and> xs ! i \<notin> set (drop (Suc i) xs)" by simp
  have "set xs = set (take i xs @ xs ! i # drop (Suc i) xs)" by (subst xs [symmetric]) (rule refl)
  then have "set xs = set (take i xs) \<union> {xs ! i} \<union> set (drop (Suc i) xs)" by simp
  with n show ?thesis by auto
qed

lemma remove_nth_distinct:
  assumes "distinct xs"
  shows "distinct (take i xs @ drop (Suc i) xs)"
proof -
  have "set (take i xs) \<inter> set (drop (Suc i) xs) = {}"
    using assms set_take_disj_set_drop_if_distinct [of xs i "Suc i"] by simp
  with assms show ?thesis by simp
qed

lemma remove_nth_distinct_map:
  assumes "distinct (map f xs)"
  shows "distinct (map f (take i xs @ drop (Suc i) xs))"
proof -
  have "map f (take i xs @ drop (Suc i) xs) = take i (map f xs) @ drop (Suc i) (map f xs)"
    by (simp add: take_map drop_map)
  with remove_nth_distinct [OF assms, of i] show ?thesis by simp
qed

lemma schedule_invI:
  assumes "distinct (map fst (cdpSessionByPage w))"
    and "distinct (map fst (attached w))"
    and "distinct (map snd (attached w))"
    and "distinct (map continuation_page pending)"
    and "\<forall>(s, p) \<in> set (attached w). s < created w"
    and "\<forall>s p. (s, p) \<in> set (attached w) \<longleftrightarrow>
        ((p, s) \<in> set (cdpSessionByPage w) \<and> DeleteSession p \<notin> set pending) \<or>
        SetSession p s \<in> set pending"
    and "\<forall>p s. SetSession p s \<in> set pending \<longrightarrow> p \<notin> fst ` set (cdpSessionByPage w)"
  shows "schedule_inv (w, pending)"
  using assms unfolding schedule_inv_def fst_conv snd_conv by blast

lemma schedule_invD:
  assumes "schedule_inv (w, pending)"
  shows "distinct (map fst (cdpSessionByPage w))"
    and "distinct (map fst (attached w))"
    and "distinct (map snd (attached w))"
    and "distinct (map continuation_page pending)"
    and "\<forall>(s, p) \<in> set (attached w). s < created w"
    and "\<forall>s p. (s, p) \<in> set (attached w) \<longleftrightarrow>
        ((p, s) \<in> set (cdpSessionByPage w) \<and> DeleteSession p \<notin> set pending) \<or>
        SetSession p s \<in> set pending"
    and "\<forall>p s. SetSession p s \<in> set pending \<longrightarrow> p \<notin> fst ` set (cdpSessionByPage w)"
  using assms unfolding schedule_inv_def fst_conv snd_conv by blast+

lemma schedule_inv_call_detach:
  assumes inv: "schedule_inv (w, pending)"
    and free: "page \<notin> continuation_page ` set pending"
  shows "schedule_inv (schedule_step H (Call (DetachCPDSession page)) (w, pending))"
proof (cases "call_op H (DetachCPDSession page) w")
  case (Pair w' k)
  note D = schedule_invD [OF inv]
  from call_detach_cases [OF Pair] show ?thesis
  proof (elim disjE conjE exE)
    assume "w' = w" "k = None"
    with Pair inv show ?thesis by simp
  next
    assume "w' = w\<lparr>trace := trace w @ [Detach (the (map_of (cdpSessionByPage w) page))]\<rparr>"
      "k = None"
    with Pair inv show ?thesis by (simp add: schedule_inv_def)
  next
    fix s
    assume cached: "map_of (cdpSessionByPage w) page = Some s"
      and w': "w' = w\<lparr>attached := filter (\<lambda>(s', p). s' \<noteq> s) (attached w),
             trace := trace w @ [Detach s]\<rparr>"
      and k: "k = Some (DeleteSession page)"
    let ?pending = "pending @ [DeleteSession page]"
    from Pair k have step: "schedule_step H (Call (DetachCPDSession page)) (w, pending) = (w', ?pending)"
      by simp
    have cw: "cdpSessionByPage w' = cdpSessionByPage w" and crw: "created w' = created w"
      and aw: "attached w' = filter (\<lambda>(s', p). s' \<noteq> s) (attached w)"
      by (simp_all add: w')
    from cached have mem: "(page, s) \<in> set (cdpSessionByPage w)" by (rule map_of_SomeD)
    from free have nodel: "DeleteSession page \<notin> set pending"
      and noset: "\<And>s'. SetSession page s' \<notin> set pending"
      by (force simp: image_iff)+
    from mem nodel D(6) have a: "(s, page) \<in> set (attached w)" by blast
    have only: "(s' = s) = (p = page)" if m: "(s', p) \<in> set (attached w)" for s' p
    proof
      assume "s' = s"
      with m a D(2) show "p = page" by (metis eq_key_imp_eq_value)
    next
      assume p: "p = page"
      with m D(6) noset have "(page, s') \<in> set (cdpSessionByPage w)" by blast
      with mem D(1) show "s' = s" by (metis eq_key_imp_eq_value)
    qed
    have c1: "distinct (map fst (cdpSessionByPage w'))" using D(1) by (simp add: cw)
    have c2: "distinct (map fst (attached w'))" using D(2) by (simp add: aw distinct_map_filter)
    have c3: "distinct (map snd (attached w'))" using D(3) by (simp add: aw distinct_map_filter)
    have c4: "distinct (map continuation_page ?pending)" using D(4) free by simp
    have c5: "\<forall>(s, p) \<in> set (attached w'). s < created w'" using D(5) by (auto simp: aw crw)
    have c6: "\<forall>s' p. (s', p) \<in> set (attached w') \<longleftrightarrow>
        ((p, s') \<in> set (cdpSessionByPage w') \<and> DeleteSession p \<notin> set ?pending) \<or>
        SetSession p s' \<in> set ?pending"
    proof (intro allI)
      fix s' p
      have "(s', p) \<in> set (attached w') \<longleftrightarrow> (s', p) \<in> set (attached w) \<and> s' \<noteq> s"
        by (auto simp: aw)
      also have "\<dots> \<longleftrightarrow> (s', p) \<in> set (attached w) \<and> p \<noteq> page"
        using only [of s' p] by blast
      also have "\<dots> \<longleftrightarrow> (((p, s') \<in> set (cdpSessionByPage w) \<and> DeleteSession p \<notin> set pending) \<or>
          SetSession p s' \<in> set pending) \<and> p \<noteq> page"
        using D(6) by blast
      also have "\<dots> \<longleftrightarrow> ((p, s') \<in> set (cdpSessionByPage w') \<and> DeleteSession p \<notin> set ?pending) \<or>
          SetSession p s' \<in> set ?pending"
        using noset [of s'] by (auto simp: cw)
      finally show "(s', p) \<in> set (attached w') \<longleftrightarrow>
        ((p, s') \<in> set (cdpSessionByPage w') \<and> DeleteSession p \<notin> set ?pending) \<or>
        SetSession p s' \<in> set ?pending" .
    qed
    have c7: "\<forall>p s. SetSession p s \<in> set ?pending \<longrightarrow> p \<notin> fst ` set (cdpSessionByPage w')"
      using D(7) by (simp add: cw)
    show ?thesis unfolding step by (rule schedule_invI [OF c1 c2 c3 c4 c5 c6 c7])
  qed
qed

lemma remove_nth_other:
  assumes "distinct (map f xs)" and "i < length xs"
    and "x \<in> set (take i xs @ drop (Suc i) xs)"
  shows "f x \<noteq> f (xs ! i)"
proof -
  from assms(2) have xs: "xs = take i xs @ xs ! i # drop (Suc i) xs" by (rule id_take_nth_drop)
  from assms(1) have "distinct (map f (take i xs @ xs ! i # drop (Suc i) xs))"
    by (subst xs [symmetric])
  then have n: "f (xs ! i) \<notin> f ` set (take i xs) \<and> f (xs ! i) \<notin> f ` set (drop (Suc i) xs)"
    by auto
  show ?thesis
  proof
    assume e: "f x = f (xs ! i)"
    from assms(3) have "x \<in> set (take i xs) \<or> x \<in> set (drop (Suc i) xs)" by simp
    then have "f x \<in> f ` set (take i xs) \<or> f x \<in> f ` set (drop (Suc i) xs)" by blast
    with e n show False by simp
  qed
qed

lemma schedule_inv_resume:
  assumes inv: "schedule_inv (w, pending)"
  shows "schedule_inv (schedule_step H (Resume i) (w, pending))"
proof (cases "i < length pending")
  case False
  with inv show ?thesis by simp
next
  case True
  note D = schedule_invD [OF inv]
  let ?k = "pending ! i"
  let ?pending = "take i pending @ drop (Suc i) pending"
  from True have step: "schedule_step H (Resume i) (w, pending) = (resume ?k w, ?pending)"
    by simp
  from D(4) have dp: "distinct pending" by (rule distinct_map [THEN iffD1, THEN conjunct1])
  from True dp have rest: "set ?pending = set pending - {?k}" by (rule remove_nth_set)
  from True have kin: "?k \<in> set pending" by simp
  have other: "continuation_page x \<noteq> continuation_page ?k" if "x \<in> set ?pending" for x
    using D(4) True that by (rule remove_nth_other)
  have c4: "distinct (map continuation_page ?pending)"
    using D(4) by (rule remove_nth_distinct_map)
  show ?thesis
  proof (cases ?k)
    case (SetSession p s)
    let ?w = "w\<lparr>cdpSessionByPage := cdpSessionByPage w @ [(p, s)]\<rparr>"
    from kin SetSession D(7) have fresh: "p \<notin> fst ` set (cdpSessionByPage w)" by auto
    then have r: "resume ?k w = ?w" by (simp add: SetSession update_fresh)
    have nodel: "DeleteSession p \<notin> set pending"
    proof
      assume d: "DeleteSession p \<in> set pending"
      with rest SetSession have "DeleteSession p \<in> set ?pending" by simp
      from other [OF this] SetSession show False by simp
    qed
    have noset: "SetSession p s' \<notin> set ?pending" for s'
    proof
      assume "SetSession p s' \<in> set ?pending"
      from other [OF this] SetSession show False by simp
    qed
    have c1: "distinct (map fst (cdpSessionByPage ?w))" using D(1) fresh by simp
    have c2: "distinct (map fst (attached ?w))" using D(2) by simp
    have c3: "distinct (map snd (attached ?w))" using D(3) by simp
    have c5: "\<forall>(s, p) \<in> set (attached ?w). s < created ?w" using D(5) by simp
    have c6: "\<forall>s' q. (s', q) \<in> set (attached ?w) \<longleftrightarrow>
        ((q, s') \<in> set (cdpSessionByPage ?w) \<and> DeleteSession q \<notin> set ?pending) \<or>
        SetSession q s' \<in> set ?pending"
    proof (intro allI)
      fix s' q
      have "(s', q) \<in> set (attached ?w) \<longleftrightarrow>
          ((q, s') \<in> set (cdpSessionByPage w) \<and> DeleteSession q \<notin> set pending) \<or>
          SetSession q s' \<in> set pending"
        using D(6) by simp
      also have "\<dots> \<longleftrightarrow> ((q, s') \<in> set (cdpSessionByPage ?w) \<and> DeleteSession q \<notin> set ?pending) \<or>
          SetSession q s' \<in> set ?pending"
        using rest SetSession nodel kin by auto
      finally show "(s', q) \<in> set (attached ?w) \<longleftrightarrow>
        ((q, s') \<in> set (cdpSessionByPage ?w) \<and> DeleteSession q \<notin> set ?pending) \<or>
        SetSession q s' \<in> set ?pending" .
    qed
    have c7: "\<forall>q s'. SetSession q s' \<in> set ?pending \<longrightarrow> q \<notin> fst ` set (cdpSessionByPage ?w)"
    proof (intro allI impI)
      fix q s' assume m: "SetSession q s' \<in> set ?pending"
      with rest D(7) have "q \<notin> fst ` set (cdpSessionByPage w)" by blast
      moreover from m noset have "q \<noteq> p" by blast
      ultimately show "q \<notin> fst ` set (cdpSessionByPage ?w)" by simp
    qed
    show ?thesis unfolding step r by (rule schedule_invI [OF c1 c2 c3 c4 c5 c6 c7])
  next
    case (DeleteSession p)
    let ?w = "w\<lparr>cdpSessionByPage := AList.delete p (cdpSessionByPage w)\<rparr>"
    have r: "resume ?k w = ?w" by (simp add: DeleteSession)
    have mem: "(q, s') \<in> set (AList.delete p (cdpSessionByPage w)) \<longleftrightarrow>
        (q, s') \<in> set (cdpSessionByPage w) \<and> q \<noteq> p" for q s'
      by (auto simp: AList.delete_eq)
    have noset: "SetSession p s' \<notin> set pending" for s'
    proof
      assume d: "SetSession p s' \<in> set pending"
      with rest DeleteSession have "SetSession p s' \<in> set ?pending" by simp
      from other [OF this] DeleteSession show False by simp
    qed
    have nodel: "DeleteSession p \<notin> set ?pending"
    proof
      assume "DeleteSession p \<in> set ?pending"
      from other [OF this] DeleteSession show False by simp
    qed
    have c1: "distinct (map fst (cdpSessionByPage ?w))" using D(1) by (simp add: distinct_delete)
    have c2: "distinct (map fst (attached ?w))" using D(2) by simp
    have c3: "distinct (map snd (attached ?w))" using D(3) by simp
    have c5: "\<forall>(s, p) \<in> set (attached ?w). s < created ?w" using D(5) by simp
    have c6: "\<forall>s' q. (s', q) \<in> set (attached ?w) \<longleftrightarrow>
        ((q, s') \<in> set (cdpSessionByPage ?w) \<and> DeleteSession q \<notin> set ?pending) \<or>
        SetSession q s' \<in> set ?pending"
    proof (intro allI)
      fix s' q
      have "(s', q) \<in> set (attached ?w) \<longleftrightarrow>
          ((q, s') \<in> set (cdpSessionByPage w) \<and> DeleteSession q \<notin> set pending) \<or>
          SetSession q s' \<in> set pending"
        using D(6) by simp
      also have "\<dots> \<longleftrightarrow> ((q, s') \<in> set (cdpSessionByPage ?w) \<and> DeleteSession q \<notin> set ?pending) \<or>
          SetSession q s' \<in> set ?pending"
        using rest DeleteSession noset [of s'] kin by (auto simp: mem)
      finally show "(s', q) \<in> set (attached ?w) \<longleftrightarrow>
        ((q, s') \<in> set (cdpSessionByPage ?w) \<and> DeleteSession q \<notin> set ?pending) \<or>
        SetSession q s' \<in> set ?pending" .
    qed
    have c7: "\<forall>q s'. SetSession q s' \<in> set ?pending \<longrightarrow> q \<notin> fst ` set (cdpSessionByPage ?w)"
    proof (intro allI impI)
      fix q s' assume m: "SetSession q s' \<in> set ?pending"
      with rest D(7) have "q \<notin> fst ` set (cdpSessionByPage w)" by blast
      then show "q \<notin> fst ` set (cdpSessionByPage ?w)" by (auto simp: mem image_iff)
    qed
    show ?thesis unfolding step r by (rule schedule_invI [OF c1 c2 c3 c4 c5 c6 c7])
  qed
qed

lemma schedule_inv_step:
  assumes "schedule_inv st" and "no_overlap H (x # xs) st"
  shows "schedule_inv (schedule_step H x st)"
proof (cases st)
  case (Pair w pending)
  from assms(1) Pair have inv: "schedule_inv (w, pending)" by simp
  show ?thesis
  proof (cases x)
    case (Resume i)
    show ?thesis unfolding Pair Resume by (rule schedule_inv_resume [OF inv])
  next
    case (Call op)
    with assms(2) Pair have free: "op_page op \<notin> continuation_page ` set pending" by simp
    show ?thesis
    proof (cases op)
      case (GetCDPSession page)
      with free have "page \<notin> continuation_page ` set pending" by simp
      with inv show ?thesis unfolding Pair Call GetCDPSession by (rule schedule_inv_call_get)
    next
      case (DetachCPDSession page)
      with free have "page \<notin> continuation_page ` set pending" by simp
      with inv show ?thesis unfolding Pair Call DetachCPDSession by (rule schedule_inv_call_detach)
    qed
  qed
qed

lemma no_overlap_tail: "no_overlap H (x # xs) st \<Longrightarrow> no_overlap H xs (schedule_step H x st)"
  by (cases x) (cases st, simp)+

lemma schedule_inv_run:
  "schedule_inv st \<Longrightarrow> no_overlap H xs st \<Longrightarrow> schedule_inv (run_schedule H xs st)"
proof (induction xs arbitrary: st)
  case Nil
  then show ?case by simp
next
  case (Cons x xs)
  from Cons.prems have "schedule_inv (schedule_step H x st)" by (rule schedule_inv_step)
  moreover from Cons.prems(2) have "no_overlap H xs (schedule_step H x st)" by (rule no_overlap_tail)
  ultimately show ?case by (simp add: Cons.IH)
qed

lemma no_overlap_take: "no_overlap H xs st \<Longrightarrow> no_overlap H (take n xs) st"
proof (induction xs arbitrary: st n)
  case Nil
  then show ?case by simp
next
  case (Cons x xs)
  show ?case
  proof (cases n)
    case 0
    then show ?thesis by simp
  next
    case (Suc m)
    from Cons.prems have t: "no_overlap H xs (schedule_step H x st)" by (rule no_overlap_tail)
    then have "no_overlap H (take m xs) (schedule_step H x st)" by (rule Cons.IH)
    with Cons.prems Suc show ?thesis by (cases x; cases st) simp_all
  qed
qed

lemma sequential_no_overlap:
  "no_overlap H (concat (map (\<lambda>op. [Call op, Resume 0]) ops)) (w, [])"
proof (induction ops arbitrary: w)
  case Nil
  show ?case by simp
next
  case (Cons op ops)
  have "run_schedule H [Call op, Resume 0] (w, []) = (run_op H op w, [])"
    by (rule call_then_resume)
  then have "schedule_step H (Resume 0) (schedule_step H (Call op) (w, [])) = (run_op H op w, [])"
    by simp
  with Cons.IH [of "run_op H op w"] show ?case by simp
qed

lemma sequential_run:
  "run_schedule H (concat (map (\<lambda>op. [Call op, Resume 0]) ops)) (w, []) = (run_ops H ops w, [])"
proof (induction ops arbitrary: w)
  case Nil
  show ?case by simp
next
  case (Cons op ops)
  have "run_schedule H [Call op, Resume 0] (w, []) = (run_op H op w, [])"
    by (rule call_then_resume)
  then have "schedule_step H (Resume 0) (schedule_step H (Call op) (w, [])) = (run_op H op w, [])"
    by simp
  with Cons.IH [of "run_op H op w"] show ?case by simp
qed

lemma returned_getCDPSession:
  assumes "call_op H (GetCDPSession page) w = (w', Some k)"
  shows "getCDPSession H page w = (Inr (created w), resume k w') \<and>
         returned k w' = Inr (Some (created w))"
  using assms
  by (auto simp: getCDPSession_def await_def newCDPSession_def cache_get_def returned_def
      update_conv' Let_def split: sum.splits if_splits)

text \<open>
  Claim C6, as amended. At most one CDP session exists for a page at any time in every run
  in which no \<^verbatim>\<open>getCDPSession\<close> or \<^verbatim>\<open>detachCPDSession\<close> call for a page starts while
  an earlier call for the same page is still awaiting the host: from a state that satisfies
  the invariant (the initial state does), after every prefix of such a schedule the host has
  at most one session attached to the page and the cache at most one entry for it. In
  particular every sequence of operations run one after the other preserves the invariant.
  A session is created only when the page has no entry (\<open>getCDPSession_cached\<close>). That the
  cache maps a page to at most one session holds under every schedule.
\<close>

theorem one_session_per_page:
  assumes "wf_world w"
  shows "(no_overlap H xs (w, []) \<longrightarrow>
            (\<forall>n. length (filter (\<lambda>(s, p). p = page)
                     (attached (fst (run_schedule H (take n xs) (w, []))))) \<le> 1 \<and>
                 length (filter (\<lambda>(p, s). p = page)
                     (cdpSessionByPage (fst (run_schedule H (take n xs) (w, []))))) \<le> 1)) \<and>
         wf_world (run_ops H ops w) \<and>
         length (filter (\<lambda>(p, s). p = page) (cdpSessionByPage (run_ops H ops w))) \<le> 1 \<and>
         length (filter (\<lambda>(s, p). p = page) (attached (run_ops H ops w))) \<le> 1 \<and>
         length (filter (\<lambda>(p, s). p = page)
                   (cdpSessionByPage (fst (run_schedule H schedule (w, pending))))) \<le> 1"
proof -
  let ?w = "run_ops H ops w"
  from assms have wf: "wf_world ?w" by (rule wf_run_ops)
  from wf have "distinct (map fst (cdpSessionByPage ?w))" by (simp add: wf_world_def)
  then have k: "length (filter (\<lambda>(p, s). p = page) (cdpSessionByPage ?w)) \<le> 1"
    by (rule at_most_one_key)
  from wf have "distinct (map snd (attached ?w))" by (simp add: wf_world_def)
  then have v: "length (filter (\<lambda>(s, p). p = page) (attached ?w)) \<le> 1"
    by (rule at_most_one_value)
  from assms have "distinct (map fst (cdpSessionByPage (fst (w, pending))))"
    by (simp add: wf_world_def)
  then have "distinct (map fst (cdpSessionByPage (fst (run_schedule H schedule (w, pending)))))"
    by (rule distinct_run_schedule)
  then have i: "length (filter (\<lambda>(p, s). p = page)
                   (cdpSessionByPage (fst (run_schedule H schedule (w, pending))))) \<le> 1"
    by (rule at_most_one_key)
  have o: "\<forall>n. length (filter (\<lambda>(s, p). p = page)
                     (attached (fst (run_schedule H (take n xs) (w, []))))) \<le> 1 \<and>
                 length (filter (\<lambda>(p, s). p = page)
                     (cdpSessionByPage (fst (run_schedule H (take n xs) (w, []))))) \<le> 1"
    if no: "no_overlap H xs (w, [])"
  proof (intro allI)
    fix n
    let ?st = "run_schedule H (take n xs) (w, [])"
    from no have "no_overlap H (take n xs) (w, [])" by (rule no_overlap_take)
    with schedule_inv_initial [OF assms] have "schedule_inv ?st" by (rule schedule_inv_run)
    then have "schedule_inv (fst ?st, snd ?st)" by simp
    note D = schedule_invD [OF this]
    from D(3) have a: "length (filter (\<lambda>(s, p). p = page) (attached (fst ?st))) \<le> 1"
      by (rule at_most_one_value)
    from D(1) have c: "length (filter (\<lambda>(p, s). p = page) (cdpSessionByPage (fst ?st))) \<le> 1"
      by (rule at_most_one_key)
    from a c show "length (filter (\<lambda>(s, p). p = page) (attached (fst ?st))) \<le> 1 \<and>
        length (filter (\<lambda>(p, s). p = page) (cdpSessionByPage (fst ?st))) \<le> 1" by (rule conjI)
  qed
  from o wf k v i show ?thesis by blast
qed

theorem one_session_per_page_witness:
  "wf_world (initial_world :: rat world) \<and>
   no_overlap host0
     [Call (GetCDPSession 1), Call (GetCDPSession 2), Resume 1, Resume 0,
      Call (DetachCPDSession 1), Call (GetCDPSession 2), Resume 0, Call (GetCDPSession 1), Resume 0]
     (initial_world, []) \<and>
   run_schedule host0
     [Call (GetCDPSession 1), Call (GetCDPSession 2), Resume 1, Resume 0,
      Call (DetachCPDSession 1), Call (GetCDPSession 2), Resume 0, Call (GetCDPSession 1), Resume 0]
     (initial_world, []) =
     (\<lparr>cdpSessionByPage = [(2, 1), (1, 2)], attached = [(1, 2), (2, 1)], created = 3,
       trace = [NewCDPSession 1, NewCDPSession 2, Detach 0, NewCDPSession 1]\<rparr>, []) \<and>
   wf_world (run_ops host0
      [GetCDPSession 1, GetCDPSession 1, DetachCPDSession 1, GetCDPSession 1, GetCDPSession 2]
      initial_world) \<and>
   cdpSessionByPage (run_ops host0
      [GetCDPSession 1, GetCDPSession 1, DetachCPDSession 1, GetCDPSession 1, GetCDPSession 2]
      initial_world) = [(1, 1), (2, 2)] \<and>
   attached (run_ops host0
      [GetCDPSession 1, GetCDPSession 1, DetachCPDSession 1, GetCDPSession 1, GetCDPSession 2]
      initial_world) = [(1, 1), (2, 2)] \<and>
   cdpSessionByPage (fst (run_schedule host0
      [Call (GetCDPSession 1), Call (GetCDPSession 1), Resume 1, Resume 0]
      (initial_world, []))) = [(1, 0)]"
  using one_session_per_page [OF wf_initial, where H = host0 and page = 1
      and xs = "[Call (GetCDPSession 1), Call (GetCDPSession 2), Resume 1, Resume 0,
        Call (DetachCPDSession 1), Call (GetCDPSession 2), Resume 0, Call (GetCDPSession 1), Resume 0]"
      and ops = "[GetCDPSession 1, GetCDPSession 1, DetachCPDSession 1, GetCDPSession 1, GetCDPSession 2]"
      and schedule = "[Call (GetCDPSession 1), Call (GetCDPSession 1), Resume 1, Resume 0]"
      and pending = "[]"]
    wf_initial [where ?'a = rat]
  by (simp add: host0_def initial_world_def getCDPSession_def detachCPDSession_def await_def
      newCDPSession_def detach_def cache_get_def throw_def Let_def)

text \<open>
  Claim C6 as stated fails: two calls of \<^verbatim>\<open>getCDPSession\<close> for a page without an entry
  that overlap both pass the test of membership before either writes the cache, and each
  creates a session. Two sessions are then attached to the page, and the cache keeps the one
  written last.
\<close>

theorem overlapping_first_calls_counterexample:
  "run_schedule host0 [Call (GetCDPSession 0), Call (GetCDPSession 0), Resume 0, Resume 0]
     (initial_world, []) =
   (\<lparr>cdpSessionByPage = [(0, 1)], attached = [(0, 0), (1, 0)], created = 2,
     trace = [NewCDPSession 0, NewCDPSession 0]\<rparr>, []) \<and>
   length (filter (\<lambda>(s, p). p = 0)
     (attached (fst (run_schedule host0
        [Call (GetCDPSession 0), Call (GetCDPSession 0), Resume 0, Resume 0]
        (initial_world, []))))) = 2"
  by (simp add: newCDPSession_def host0_def initial_world_def Let_def)

text \<open>
  Claim C5, as amended. For a page with no entry in the cache, when the host creates the
  session, the first \<^verbatim>\<open>getCDPSession\<close> returns a new session object and creates exactly
  one (one \<^verbatim>\<open>newCDPSession\<close> call, one more object). Every call that starts after the
  first has returned, after any further operations (run one after the other) that do not
  detach the page, returns that same object and changes nothing; so does any call that
  starts in a state whose cache holds that entry. After a \<^verbatim>\<open>detachCPDSession\<close> that the
  host carries out, the page has no entry, and the next \<^verbatim>\<open>getCDPSession\<close> creates
  exactly one new object, different from the first.
\<close>

theorem session_created_once_then_reused:
  assumes first: "page \<notin> fst ` set (cdpSessionByPage w)"
    and ok1: "reply_unit H (trace w @ [NewCDPSession page]) = Inr ()"
    and w1: "w1 = snd (getCDPSession H page w)"
    and later: "DetachCPDSession page \<notin> set ops"
    and w2: "w2 = run_ops H ops w1"
    and w3: "w3 = snd (detachCPDSession H page w2)"
  shows "fst (getCDPSession H page w) = Inr (created w) \<and>
         created w1 = Suc (created w) \<and>
         trace w1 = trace w @ [NewCDPSession page] \<and>
         getCDPSession H page w2 = (Inr (created w), w2) \<and>
         (\<forall>w'. map_of (cdpSessionByPage w') page = Some (created w) \<longrightarrow>
               getCDPSession H page w' = (Inr (created w), w')) \<and>
         (reply_unit H (trace w2 @ [Detach (created w)]) = Inr () \<longrightarrow>
            fst (detachCPDSession H page w2) = Inr () \<and>
            page \<notin> fst ` set (cdpSessionByPage w3) \<and>
            created w < created w3 \<and>
            (reply_unit H (trace w3 @ [NewCDPSession page]) = Inr () \<longrightarrow>
               fst (getCDPSession H page w3) = Inr (created w3) \<and>
               created (snd (getCDPSession H page w3)) = Suc (created w3) \<and>
               trace (snd (getCDPSession H page w3)) = trace w3 @ [NewCDPSession page]))"
proof -
  from first have none: "map_of (cdpSessionByPage w) page = None" by (simp add: cached_iff)
  note c1 = getCDPSession_create [OF none ok1]
  from first have in1: "map_of (cdpSessionByPage w1) page = Some (created w)"
    by (simp add: w1 c1 update_conv')
  then have in2: "map_of (cdpSessionByPage w2) page = Some (created w)"
    unfolding w2 using later by (rule cached_run_ops)
  have "created w1 \<le> created w2" unfolding w2 by (rule created_run_ops)
  moreover have "created w3 = created w2" by (simp add: w3 created_detachCPDSession)
  moreover have c: "created w1 = Suc (created w)" by (simp add: w1 c1)
  ultimately have lt: "created w < created w3" by simp
  have a: "fst (getCDPSession H page w) = Inr (created w) \<and>
         created w1 = Suc (created w) \<and>
         trace w1 = trace w @ [NewCDPSession page] \<and>
         getCDPSession H page w2 = (Inr (created w), w2)"
    by (simp add: c1 w1 getCDPSession_cached [OF in2])
  have b: "\<forall>w'. map_of (cdpSessionByPage w') page = Some (created w) \<longrightarrow>
               getCDPSession H page w' = (Inr (created w), w')"
    by (simp add: getCDPSession_cached)
  have d: "fst (detachCPDSession H page w2) = Inr () \<and>
            page \<notin> fst ` set (cdpSessionByPage w3) \<and>
            created w < created w3 \<and>
            (reply_unit H (trace w3 @ [NewCDPSession page]) = Inr () \<longrightarrow>
               fst (getCDPSession H page w3) = Inr (created w3) \<and>
               created (snd (getCDPSession H page w3)) = Suc (created w3) \<and>
               trace (snd (getCDPSession H page w3)) = trace w3 @ [NewCDPSession page])"
    if ok2: "reply_unit H (trace w2 @ [Detach (created w)]) = Inr ()"
  proof -
    note dt = detach_ok [OF in2 ok2]
    have none3: "map_of (cdpSessionByPage w3) page = None"
      by (simp add: w3 dt delete_conv')
    have e: "fst (getCDPSession H page w3) = Inr (created w3) \<and>
               created (snd (getCDPSession H page w3)) = Suc (created w3) \<and>
               trace (snd (getCDPSession H page w3)) = trace w3 @ [NewCDPSession page]"
      if ok3: "reply_unit H (trace w3 @ [NewCDPSession page]) = Inr ()"
      by (simp add: getCDPSession_create [OF none3 ok3])
    from none3 have "page \<notin> fst ` set (cdpSessionByPage w3)" by (simp add: cached_iff)
    with lt e show ?thesis by (simp add: dt)
  qed
  from a b d show ?thesis by blast
qed

theorem session_created_once_then_reused_witness:
  "1 \<notin> fst ` set (cdpSessionByPage (initial_world :: rat world)) \<and>
   reply_unit host0 (trace initial_world @ [NewCDPSession 1]) = Inr () \<and>
   DetachCPDSession 1 \<notin> set [GetCDPSession 2, GetCDPSession 1, DetachCPDSession 2] \<and>
   fst (getCDPSession host0 1 initial_world) = Inr 0 \<and>
   fst (getCDPSession host0 1
         (run_ops host0 [GetCDPSession 2, GetCDPSession 1, DetachCPDSession 2]
            (snd (getCDPSession host0 1 initial_world)))) = Inr 0 \<and>
   reply_unit host0
     (trace (run_ops host0 [GetCDPSession 2, GetCDPSession 1, DetachCPDSession 2]
               (snd (getCDPSession host0 1 initial_world))) @ [Detach 0]) = Inr () \<and>
   fst (getCDPSession host0 1
         (snd (detachCPDSession host0 1
            (run_ops host0 [GetCDPSession 2, GetCDPSession 1, DetachCPDSession 2]
               (snd (getCDPSession host0 1 initial_world)))))) = Inr 2"
  using session_created_once_then_reused [of 1 initial_world host0 _
      "[GetCDPSession 2, GetCDPSession 1, DetachCPDSession 2]" _ _, OF _ _ refl _ refl refl]
  by (simp add: host0_def initial_world_def getCDPSession_def detachCPDSession_def await_def
      newCDPSession_def detach_def cache_get_def throw_def Let_def)

text \<open>
  Claim C5 as stated fails: a second call for the same page that starts while the first is
  still awaiting \<^verbatim>\<open>newCDPSession\<close> creates a second session object, and when the two are
  resumed the first call returns object 0 and the second returns object 1.
\<close>

theorem overlapping_call_returns_other_session_counterexample:
  "run_schedule host0 [Call (GetCDPSession 0), Call (GetCDPSession 0)] (initial_world, []) =
     (\<lparr>cdpSessionByPage = [], attached = [(0, 0), (1, 0)], created = 2,
       trace = [NewCDPSession 0, NewCDPSession 0]\<rparr>,
      [SetSession 0 0, SetSession 0 1]) \<and>
   returned (SetSession 0 0)
     \<lparr>cdpSessionByPage = [], attached = [(0, 0), (1, 0)], created = 2,
      trace = [NewCDPSession 0, NewCDPSession 0 :: rat call]\<rparr> = Inr (Some 0) \<and>
   returned (SetSession 0 1)
     (resume (SetSession 0 0)
        \<lparr>cdpSessionByPage = [], attached = [(0, 0), (1, 0)], created = 2,
         trace = [NewCDPSession 0, NewCDPSession 0 :: rat call]\<rparr>) = Inr (Some 1) \<and>
   created (fst (run_schedule host0 [Call (GetCDPSession 0), Call (GetCDPSession 0)]
                   (initial_world, []))) = 2"
  by (simp add: newCDPSession_def host0_def initial_world_def Let_def returned_def cache_get_def)

section \<open>Running the commands\<close>

lemma await_Inr: "m w = (Inr x, w') \<Longrightarrow> await m f w = f x w'"
  by (simp add: await_def)

lemma await_Inl: "m w = (Inl e, w') \<Longrightarrow> await m f w = (Inl e, w')"
  by (simp add: await_def)

lemma send_eq:
  "send s c reply w = (reply (trace w @ [Send s c]), w\<lparr>trace := trace w @ [Send s c]\<rparr>)"
  by (simp add: send_def issue_def Let_def)

lemmas run_simps = await_def getCDPSession_def newCDPSession_def cache_get_def send_eq
  resolve_def throw_def Let_def

section \<open>\<^verbatim>\<open>findElements\<close>: proofs\<close>

text \<open>
  With a supported strategy and a selector other than \<^verbatim>\<open>iframe\<close> the query is sent: on
  the host \<open>host0\<close>, a session, the document, the query and one \<^verbatim>\<open>DOM.resolveNode\<close>
  for each node found.
\<close>

lemma findElements_tag_name_example:
  "findElements host0 ''k'' 0 ''tag name'' ''div'' initial_world =
     (Inr [ElementRef ''k'' (Some ''obj-1''), ElementRef ''k'' (Some ''obj-1'')],
      \<lparr>cdpSessionByPage = [(0, 0)], attached = [(0, 0)], created = 1,
       trace = [NewCDPSession 0, Send 0 (DOM_getDocument (- 1)),
                Send 0 (DOM_querySelectorAll 7 ''div''),
                Send 0 (DOM_resolveNode 3), Send 0 (DOM_resolveNode 4)]\<rparr>)"
  by (simp add: findElements_def querySelectorAll_def run_simps host0_def initial_world_def)

text \<open>
  Claim C1, as amended. The special case of \<^verbatim>\<open>findElements\<close> tests the selector
  \<^verbatim>\<open>args.value\<close>, not the strategy \<^verbatim>\<open>args.using\<close>: for every strategy, the selector
  value \<^verbatim>\<open>iframe\<close> gives the empty list and leaves the state as it is, so no session is
  requested and no protocol call is sent.
\<close>

theorem findElements_iframe_value:
  "findElements H KEY page args_using ''iframe'' w = (Inr [], w)"
  by (simp add: findElements_def resolve_def)

text \<open>
  Claim C1 as stated fails: with the strategy \<^verbatim>\<open>iframe\<close> and the selector \<^verbatim>\<open>div\<close>,
  \<^verbatim>\<open>findElements\<close> throws the unsupported-strategy error.
\<close>

theorem findElements_iframe_strategy_counterexample:
  "findElements host0 ''element-6066-11e4-a52e-4f735466cecf'' 0 ''iframe'' ''div'' initial_world
     = (Inl (Error ''Unsupported findElements strategy iframe''), initial_world) \<and>
   fst (findElements host0 ''element-6066-11e4-a52e-4f735466cecf'' 0 ''iframe'' ''div'' initial_world)
     \<noteq> Inr []"
  by (simp add: findElements_def throw_def)

text \<open>
  Claim C2, as amended. For every selector value other than \<^verbatim>\<open>iframe\<close> and every strategy
  other than \<^verbatim>\<open>css selector\<close> and \<^verbatim>\<open>tag name\<close>, \<^verbatim>\<open>findElements\<close> throws an error
  whose message names the strategy, and sends nothing.
\<close>

theorem findElements_unsupported:
  assumes "args_value \<noteq> ''iframe''"
    and "args_using \<noteq> ''css selector''" and "args_using \<noteq> ''tag name''"
  shows "findElements H KEY page args_using args_value w =
           (Inl (Error (''Unsupported findElements strategy '' @ args_using)), w)"
  using assms by (simp add: findElements_def throw_def)

theorem findElements_unsupported_witness:
  "''div'' \<noteq> ''iframe'' \<and> ''xpath'' \<noteq> ''css selector'' \<and> ''xpath'' \<noteq> ''tag name'' \<and>
   findElements host0 ''element-6066-11e4-a52e-4f735466cecf'' 0 ''xpath'' ''div'' initial_world =
     (Inl (Error ''Unsupported findElements strategy xpath''), initial_world)"
  using findElements_unsupported [of "''div''" "''xpath''" host0
      "''element-6066-11e4-a52e-4f735466cecf''" 0 initial_world]
  by simp

text \<open>
  Claim C2 as stated fails: with the unsupported strategy \<^verbatim>\<open>xpath\<close> and the selector
  \<^verbatim>\<open>iframe\<close>, \<^verbatim>\<open>findElements\<close> returns the empty list and throws nothing.
\<close>

theorem findElements_unsupported_counterexample:
  "''xpath'' \<noteq> ''css selector'' \<and> ''xpath'' \<noteq> ''tag name'' \<and>
   findElements host0 ''element-6066-11e4-a52e-4f735466cecf'' 0 ''xpath'' ''iframe'' initial_world
     = (Inr [], initial_world)"
  by (simp add: findElements_def resolve_def)

section \<open>\<^verbatim>\<open>getElementAttribute\<close>: proofs\<close>

text \<open>
  What the loop computes: it stops at the first index, at a name or at a value, whose entry
  equals the requested name, and returns the entry after it. It agrees with the
  specification's reading when no value of the node equals the requested name.
\<close>

lemma attributeLoop_first_match:
  assumes "j \<le> i" and "i < length attributes" and "attributes ! i = name"
    and "\<forall>k. j \<le> k \<and> k < i \<longrightarrow> attributes ! k \<noteq> name"
  shows "attributeLoop attributes name j =
           (if i + 1 < length attributes then Some (attributes ! (i + 1)) else None)"
  using assms
proof (induction "i - j" arbitrary: j)
  case 0
  then have "j = i" by simp
  with "0.prems" show ?case by (subst attributeLoop.simps) simp
next
  case (Suc d)
  then have lt: "j < i" by simp
  with Suc.prems have ne: "attributes ! j \<noteq> name" by simp
  from Suc.hyps(2) have d: "d = i - (j + 1)" by simp
  from lt have le: "j + 1 \<le> i" by simp
  from Suc.prems have rest: "\<forall>k. j + 1 \<le> k \<and> k < i \<longrightarrow> attributes ! k \<noteq> name" by simp
  have "attributeLoop attributes name (j + 1) =
      (if i + 1 < length attributes then Some (attributes ! (i + 1)) else None)"
    by (rule Suc.hyps(1) [OF d le Suc.prems(2) Suc.prems(3) rest])
  moreover from lt Suc.prems(2) ne
  have "attributeLoop attributes name j = attributeLoop attributes name (j + 1)"
    by (subst attributeLoop.simps) simp
  ultimately show ?case by simp
qed

lemma attributeLoop_no_match:
  "\<forall>k. j \<le> k \<and> k < length attributes \<longrightarrow> attributes ! k \<noteq> name \<Longrightarrow>
   attributeLoop attributes name j = None"
proof (induction attributes name j rule: attributeLoop.induct)
  case (1 attributes name i)
  show ?case
  proof (cases "i < length attributes")
    case False
    then show ?thesis by (subst attributeLoop.simps) simp
  next
    case True
    with "1.prems" have ne: "attributes ! i \<noteq> name" by simp
    from "1.prems" have "\<forall>k. i + 1 \<le> k \<and> k < length attributes \<longrightarrow> attributes ! k \<noteq> name"
      by simp
    with True ne have "attributeLoop attributes name (i + 1) = None" by (rule "1.IH")
    with True ne show ?thesis by (subst attributeLoop.simps) simp
  qed
qed

lemma attributeLoop_shift:
  "attributeLoop (x # attributes) name (i + 1) = attributeLoop attributes name i"
proof (induction attributes name i rule: attributeLoop.induct)
  case (1 attributes name i)
  show ?case
  proof (cases "i < length attributes \<and> attributes ! i \<noteq> name")
    case True
    then have "attributeLoop (x # attributes) name (i + 1 + 1) = attributeLoop attributes name (i + 1)"
      using "1.IH" by simp
    with True show ?thesis
      by (subst attributeLoop.simps, subst (2) attributeLoop.simps) simp
  next
    case False
    then show ?thesis
      by (subst attributeLoop.simps, subst (2) attributeLoop.simps) auto
  qed
qed

lemma attributeLoop_Cons:
  "attributeLoop (x # attributes) name 0 =
     (if x = name then (case attributes of [] \<Rightarrow> None | v # _ \<Rightarrow> Some v)
      else attributeLoop attributes name 0)"
  using attributeLoop_shift [of x attributes name 0]
  by (subst attributeLoop.simps) (simp split: list.splits)

lemma attributeLoop_agrees_with_spec:
  assumes "\<forall>k. odd k \<and> k < length attributes \<longrightarrow> attributes ! k \<noteq> name"
  shows "attributeLoop attributes name 0 = spec_attribute_value attributes name"
  using assms
proof (induction attributes name rule: spec_attribute_value.induct)
  case (1 n v rest name)
  from "1.prems" have v: "v \<noteq> name" by (auto dest: spec [of _ 1])
  have "\<forall>k. odd k \<and> k < length rest \<longrightarrow> rest ! k \<noteq> name"
  proof (intro allI impI)
    fix k assume k: "odd k \<and> k < length rest"
    then have "odd (k + 2) \<and> k + 2 < length (n # v # rest)" by simp
    with "1.prems" have "(n # v # rest) ! (k + 2) \<noteq> name" by blast
    then show "rest ! k \<noteq> name" by simp
  qed
  with "1.IH" have "n \<noteq> name \<Longrightarrow> attributeLoop rest name 0 = spec_attribute_value rest name"
    by simp
  with v show ?case by (simp add: attributeLoop_Cons del: attributeLoop.simps)
qed simp_all

lemma getElementAttribute_eq:
  assumes "getCDPSession H page w = (Inr s, w1)"
    and "reply_nodeId H (trace w1 @ [Send s (DOM_requestNode args_id)]) = Inr nodeId"
    and "reply_attributes H (trace w1 @ [Send s (DOM_requestNode args_id),
            Send s (DOM_getAttributes nodeId)]) = Inr attributes"
  shows "getElementAttribute H page args_id args_name w =
           (Inr (attributeLoop attributes args_name 0),
            w1\<lparr>trace := trace w1 @ [Send s (DOM_requestNode args_id),
                                     Send s (DOM_getAttributes nodeId)]\<rparr>)"
  using assms by (simp add: getElementAttribute_def await_def send_eq resolve_def)

text \<open>
  Claim C7. On an element \<^verbatim>\<open><div class="id" id="foo">\<close> the attribute list is
  \<^verbatim>\<open>[class, id, id, foo]\<close>; asked for \<^verbatim>\<open>id\<close>, the code stops at the value of
  \<^verbatim>\<open>class\<close> and returns the name \<^verbatim>\<open>id\<close>, where the value after the matching name is
  \<^verbatim>\<open>foo\<close>. On \<^verbatim>\<open><div class="id" title="x">\<close>, which has no \<^verbatim>\<open>id\<close>, it returns
  \<^verbatim>\<open>title\<close> instead of nothing. On the specification's own example \<^verbatim>\<open>[id, foo]\<close> it
  returns \<^verbatim>\<open>foo\<close>, and nothing for a name that is absent.
\<close>

theorem getElementAttribute_matches_value:
  "fst (getElementAttribute host_class_id 0 ''node-1'' ''id'' initial_world) = Inr (Some ''id'') \<and>
   spec_attribute_value [''class'', ''id'', ''id'', ''foo''] ''id'' = Some ''foo'' \<and>
   fst (getElementAttribute host_class_title 0 ''node-1'' ''id'' initial_world) = Inr (Some ''title'') \<and>
   spec_attribute_value [''class'', ''id'', ''title'', ''x''] ''id'' = None \<and>
   fst (getElementAttribute host0 0 ''node-1'' ''id'' initial_world) = Inr (Some ''foo'') \<and>
   fst (getElementAttribute host0 0 ''node-1'' ''class'' initial_world) = Inr None"
  by (simp add: getElementAttribute_def run_simps host0_def host_class_id_def host_class_title_def
      initial_world_def)

section \<open>\<^verbatim>\<open>getContentQuads\<close>: proofs\<close>

text \<open>
  Claim C9. When the session is obtained and the host answers \<^verbatim>\<open>DOM.getContentQuads\<close>
  with a list whose first quad has the corners (x0,y0), (x1,y1), (x2,y2), (x3,y3), the
  result has width x1 - x0, height y2 - y1, centerX = x0 + width / 2 and
  centerY = y1 + height / 2, in the arithmetic of the number type. For the corners (0,0),
  (10,0), (10,20), (0,20) the centre is (5,10) and width and height are 10 and 20.
\<close>

theorem getContentQuads_geometry:
  assumes "getCDPSession H page w = (Inr s, w1)"
    and "reply_quads H (trace w1 @ [Send s (DOM_getContentQuads nodeId backendNodeId objectId)])
           = Inr ((x0, y0, x1, y1, x2, y2, x3, y3) # others)"
  shows "fst (getContentQuads H page nodeId backendNodeId objectId w) =
           Inr \<lparr>topLeftX = x0, topLeftY = y0, topRightX = x1, topRightY = y1,
                bottomRightX = x2, bottomRightY = y2, bottomLeftX = x3, bottomLeftY = y3,
                width = x1 - x0, height = y2 - y1,
                centerX = x0 + (x1 - x0) / 2, centerY = y1 + (y2 - y1) / 2\<rparr> \<and>
         quadGeometry (0, 0, 10, 0, 10, 20, 0, 20 :: rat) =
           \<lparr>topLeftX = 0, topLeftY = 0, topRightX = 10, topRightY = 0,
            bottomRightX = 10, bottomRightY = 20, bottomLeftX = 0, bottomLeftY = 20,
            width = 10, height = 20, centerX = 5, centerY = 10\<rparr>"
  using assms
  by (simp add: getContentQuads_def await_def send_eq resolve_def quadGeometry_def Let_def)

theorem getContentQuads_geometry_witness:
  "getCDPSession host0 0 initial_world =
     (Inr 0, \<lparr>cdpSessionByPage = [(0, 0)], attached = [(0, 0)], created = 1,
              trace = [NewCDPSession 0]\<rparr>) \<and>
   reply_quads host0 ([NewCDPSession 0] @ [Send 0 (DOM_getContentQuads None (Some 7) None)])
     = Inr ((0, 0, 10, 0, 10, 20, 0, 20) # []) \<and>
   fst (getContentQuads host0 0 None (Some 7) None initial_world) =
     Inr \<lparr>topLeftX = 0, topLeftY = 0, topRightX = 10, topRightY = 0,
          bottomRightX = 10, bottomRightY = 20, bottomLeftX = 0, bottomLeftY = 20,
          width = 10, height = 20, centerX = 5, centerY = 10\<rparr>"
proof -
  have s: "getCDPSession host0 0 initial_world =
     (Inr 0, \<lparr>cdpSessionByPage = [(0, 0)], attached = [(0, 0)], created = 1,
              trace = [NewCDPSession 0]\<rparr>)"
    by (simp add: run_simps host0_def initial_world_def)
  have q: "reply_quads host0 (trace \<lparr>cdpSessionByPage = [(0, 0)], attached = [(0, 0)], created = 1,
              trace = [NewCDPSession 0]\<rparr> @ [Send 0 (DOM_getContentQuads None (Some 7) None)])
     = Inr ((0, 0, 10, 0, 10, 20, 0, 20) # [])"
    by (simp add: host0_def)
  from getContentQuads_geometry [OF s q] s q show ?thesis by simp
qed

section \<open>\<^verbatim>\<open>sendKeysToElement\<close>: proofs\<close>



text \<open>With an empty \<^verbatim>\<open>args.value\<close> the node is focused and then reading the length throws.\<close>

lemma sendKeysToElement_no_value:
  assumes "getCDPSession H page w = (Inr s, w1)"
    and "reply_nodeId H (trace w1 @ [Send s (DOM_requestNode args_id)]) = Inr nodeId"
    and "reply_unit H (trace w1 @
           [Send s (DOM_requestNode args_id), Send s (DOM_focus (Some nodeId) None None)]) = Inr ()"
  shows "sendKeysToElement H page args_id [] w =
           (Inl (TypeError ''Cannot read properties of undefined (reading length)''),
            w1\<lparr>trace := trace w1 @
               [Send s (DOM_requestNode args_id), Send s (DOM_focus (Some nodeId) None None)]\<rparr>)"
  using assms
  by (simp add: sendKeysToElement_def await_def send_eq throw_def del: dispatchKeyEvents.simps)






section \<open>\<^verbatim>\<open>executeScript\<close>: proofs\<close>

text \<open>
  The run of \<^verbatim>\<open>executeScript\<close> once the session is obtained and the host has answered
  \<^verbatim>\<open>Runtime.enable\<close>, \<^verbatim>\<open>Runtime.evaluate\<close> and the first
  \<^verbatim>\<open>Runtime.callFunctionOn\<close>; and when the host rejects that first call.
\<close>

lemma executeScript_eq:
  assumes "getCDPSession H page w = (Inr s, w1)"
    and "reply_unit H (trace w1 @ [Send s Runtime_enable]) = Inr ()"
    and "reply_object H (trace w1 @ [Send s Runtime_enable, Send s (Runtime_evaluate ''window'')])
           = Inr window"
    and "reply_object H (trace w1 @ [Send s Runtime_enable, Send s (Runtime_evaluate ''window''),
            Send s (Runtime_callFunctionOn (ro_objectId window)
                      (''function() { '' @ args_script @ '' }'')
                      (map (functionArg KEY) args_args) None)]) = Inr returnedRef"
  shows "executeScript H KEY page args_script args_args w =
     (let t3 = trace w1 @ [Send s Runtime_enable, Send s (Runtime_evaluate ''window''),
            Send s (Runtime_callFunctionOn (ro_objectId window)
                      (''function() { '' @ args_script @ '' }'')
                      (map (functionArg KEY) args_args) None)] in
      if ro_className returnedRef = Some ''NodeList'' then
        (let t4 = t3 @ [Send s (Runtime_getProperties (ro_objectId returnedRef) True)] in
         (case reply_properties H t4 of
            Inl e \<Rightarrow> Inl e
          | Inr nodeProperties \<Rightarrow>
              Inr (Elements (List.map_filter
                 (\<lambda>e. if parseInt H (pd_name e) \<noteq> None then
                        Some (ElementRef KEY
                                (case pd_value e of None \<Rightarrow> None | Some v \<Rightarrow> ro_objectId v))
                      else None)
                 nodeProperties)),
          w1\<lparr>trace := t4\<rparr>))
      else if ro_className returnedRef = Some ''HTMLHtmlElement'' then
        (Inr (Element (ElementRef KEY (ro_objectId returnedRef))), w1\<lparr>trace := t3\<rparr>)
      else
        (let t4 = t3 @ [Send s (Runtime_callFunctionOn (ro_objectId window)
                      (''function() { '' @ args_script @ '' }'')
                      (map (functionArg KEY) args_args) (Some True))] in
         (case reply_object H t4 of
            Inl e \<Rightarrow> Inl e
          | Inr returnedValue \<Rightarrow> Inr (Value (ro_value returnedValue)),
          w1\<lparr>trace := t4\<rparr>)))"
  using assms
  by (simp add: executeScript_def await_def send_eq resolve_def Let_def split: sum.splits)


lemma executeScript_first_call_fails:
  assumes "getCDPSession H page w = (Inr s, w1)"
    and "reply_unit H (trace w1 @ [Send s Runtime_enable]) = Inr ()"
    and "reply_object H (trace w1 @ [Send s Runtime_enable, Send s (Runtime_evaluate ''window'')])
           = Inr window"
    and "reply_object H (trace w1 @ [Send s Runtime_enable, Send s (Runtime_evaluate ''window''),
            Send s (Runtime_callFunctionOn (ro_objectId window)
                      (''function() { '' @ args_script @ '' }'')
                      (map (functionArg KEY) args_args) None)]) = Inl e"
  shows "executeScript H KEY page args_script args_args w =
     (Inl e, w1\<lparr>trace := trace w1 @ [Send s Runtime_enable, Send s (Runtime_evaluate ''window''),
            Send s (Runtime_callFunctionOn (ro_objectId window)
                      (''function() { '' @ args_script @ '' }'')
                      (map (functionArg KEY) args_args) None)]\<rparr>)"
  using assms
  by (simp add: executeScript_def await_def send_eq Let_def)

lemma functionArg_primitive:
  "typeof arg = ''string'' \<or> typeof arg = ''number'' \<or> typeof arg = ''boolean'' \<Longrightarrow>
   functionArg KEY arg = ArgValue arg"
  by (auto simp: functionArg_def)

lemma functionArg_element:
  "map_of ps KEY = Some v \<Longrightarrow> functionArg KEY (JObject ps) = ArgObjectId v"
  by (auto simp: functionArg_def dest: map_of_SomeD intro: rev_image_eqI)

lemma functionArg_other:
  assumes "typeof arg \<noteq> ''string''" and "typeof arg \<noteq> ''number''" and "typeof arg \<noteq> ''boolean''"
    and "\<forall>ps. arg = JObject ps \<longrightarrow> KEY \<notin> fst ` set ps"
  shows "functionArg KEY arg = ArgValue JUndefined"
  using assms by (cases arg) (auto simp: functionArg_def)

text \<open>
  Claim C4. For every argument list, the first \<^verbatim>\<open>Runtime.callFunctionOn\<close> that
  \<^verbatim>\<open>executeScript\<close> sends (it is sent once the session is obtained and the host has
  answered \<^verbatim>\<open>Runtime.enable\<close> and \<^verbatim>\<open>Runtime.evaluate\<close>) carries one marshalled
  argument for each argument, in order. A string, a number or a boolean is passed by value;
  an object that has the element-reference key is passed by object id, the value stored
  under the key; every other argument is passed as the value \<^verbatim>\<open>undefined\<close>.
\<close>

theorem executeScript_marshals_arguments:
  assumes "getCDPSession H page w = (Inr s, w1)"
    and "reply_unit H (trace w1 @ [Send s Runtime_enable]) = Inr ()"
    and "reply_object H (trace w1 @ [Send s Runtime_enable, Send s (Runtime_evaluate ''window'')])
           = Inr window"
  shows "(\<exists>rest. trace (snd (executeScript H KEY page args_script args_args w)) =
            trace w1 @ [Send s Runtime_enable, Send s (Runtime_evaluate ''window''),
              Send s (Runtime_callFunctionOn (ro_objectId window)
                        (''function() { '' @ args_script @ '' }'')
                        (map (functionArg KEY) args_args) None)] @ rest) \<and>
         (\<forall>arg. typeof arg = ''string'' \<or> typeof arg = ''number'' \<or> typeof arg = ''boolean'' \<longrightarrow>
                functionArg KEY arg = ArgValue arg) \<and>
         (\<forall>ps v. map_of ps KEY = Some v \<longrightarrow> functionArg KEY (JObject ps) = ArgObjectId v) \<and>
         (\<forall>arg. typeof arg \<noteq> ''string'' \<and> typeof arg \<noteq> ''number'' \<and> typeof arg \<noteq> ''boolean'' \<and>
                (\<forall>ps. arg = JObject ps \<longrightarrow> KEY \<notin> fst ` set ps) \<longrightarrow>
                functionArg KEY arg = ArgValue JUndefined)"
proof -
  let ?t3 = "trace w1 @ [Send s Runtime_enable, Send s (Runtime_evaluate ''window''),
              Send s (Runtime_callFunctionOn (ro_objectId window)
                        (''function() { '' @ args_script @ '' }'')
                        (map (functionArg KEY) args_args) None)]"
  have "\<exists>rest. trace (snd (executeScript H KEY page args_script args_args w)) = ?t3 @ rest"
  proof (cases "reply_object H ?t3")
    case (Inl e)
    from executeScript_first_call_fails [OF assms Inl] show ?thesis by simp
  next
    case (Inr returnedRef)
    from executeScript_eq [OF assms Inr] show ?thesis by (simp add: Let_def)
  qed
  then show ?thesis
    by (simp add: functionArg_primitive functionArg_element functionArg_other)
qed

theorem executeScript_marshals_arguments_witness:
  "getCDPSession host0 0 initial_world =
     (Inr 0, \<lparr>cdpSessionByPage = [(0, 0)], attached = [(0, 0)], created = 1,
              trace = [NewCDPSession 0]\<rparr>) \<and>
   reply_unit host0 ([NewCDPSession 0] @ [Send 0 Runtime_enable]) = Inr () \<and>
   reply_object host0 ([NewCDPSession 0] @ [Send 0 Runtime_enable, Send 0 (Runtime_evaluate ''window'')])
     = Inr \<lparr>ro_className = Some ''Object'', ro_objectId = Some ''obj-1'', ro_value = JNumber 42\<rparr> \<and>
   trace (snd (executeScript host0 ''element-6066'' 0 ''return 1''
            [JString ''a'', JNumber 1, JBoolean True, JObject [(''element-6066'', JString ''node-9'')],
             JObject [(''x'', JNumber 1)], JNull, JUndefined] initial_world)) =
     [NewCDPSession 0, Send 0 Runtime_enable, Send 0 (Runtime_evaluate ''window''),
      Send 0 (Runtime_callFunctionOn (Some ''obj-1'') ''function() { return 1 }''
                [ArgValue (JString ''a''), ArgValue (JNumber 1), ArgValue (JBoolean True),
                 ArgObjectId (JString ''node-9''), ArgValue JUndefined, ArgValue JUndefined,
                 ArgValue JUndefined] None),
      Send 0 (Runtime_callFunctionOn (Some ''obj-1'') ''function() { return 1 }''
                [ArgValue (JString ''a''), ArgValue (JNumber 1), ArgValue (JBoolean True),
                 ArgObjectId (JString ''node-9''), ArgValue JUndefined, ArgValue JUndefined,
                 ArgValue JUndefined] (Some True))]"
proof -
  let ?w1 = "\<lparr>cdpSessionByPage = [(0, 0)], attached = [(0, 0)], created = 1,
              trace = [NewCDPSession 0 :: rat call]\<rparr>"
  let ?window = "\<lparr>ro_className = Some ''Object'', ro_objectId = Some ''obj-1'',
                  ro_value = JNumber (42 :: rat)\<rparr>"
  have s: "getCDPSession host0 0 initial_world = (Inr 0, ?w1)"
    by (simp add: run_simps host0_def initial_world_def)
  have e: "reply_unit host0 (trace ?w1 @ [Send 0 Runtime_enable]) = Inr ()"
    by (simp add: host0_def)
  have v: "reply_object host0 (trace ?w1 @ [Send 0 Runtime_enable, Send 0 (Runtime_evaluate ''window'')])
     = Inr ?window"
    by (simp add: host0_def)
  have t: "trace (snd (executeScript host0 ''element-6066'' 0 ''return 1''
            [JString ''a'', JNumber 1, JBoolean True, JObject [(''element-6066'', JString ''node-9'')],
             JObject [(''x'', JNumber 1)], JNull, JUndefined] initial_world)) =
     [NewCDPSession 0, Send 0 Runtime_enable, Send 0 (Runtime_evaluate ''window''),
      Send 0 (Runtime_callFunctionOn (Some ''obj-1'') ''function() { return 1 }''
                [ArgValue (JString ''a''), ArgValue (JNumber 1), ArgValue (JBoolean True),
                 ArgObjectId (JString ''node-9''), ArgValue JUndefined, ArgValue JUndefined,
                 ArgValue JUndefined] None),
      Send 0 (Runtime_callFunctionOn (Some ''obj-1'') ''function() { return 1 }''
                [ArgValue (JString ''a''), ArgValue (JNumber 1), ArgValue (JBoolean True),
                 ArgObjectId (JString ''node-9''), ArgValue JUndefined, ArgValue JUndefined,
                 ArgValue JUndefined] (Some True))]"
    by (simp add: executeScript_def functionArg_def run_simps host0_def initial_world_def)
  from executeScript_marshals_arguments [OF s e v, of "''element-6066''" "''return 1''"
      "[JString ''a'', JNumber 1, JBoolean True, JObject [(''element-6066'', JString ''node-9'')],
        JObject [(''x'', JNumber 1)], JNull, JUndefined]"] s e v t
  show ?thesis by simp
qed

text \<open>
  Claim C10. When the result of the first call has a class name other than
  \<^verbatim>\<open>NodeList\<close> and \<^verbatim>\<open>HTMLHtmlElement\<close> (or none), \<^verbatim>\<open>executeScript\<close> sends a
  second \<^verbatim>\<open>Runtime.callFunctionOn\<close> with the same object, function declaration and
  arguments and with \<^verbatim>\<open>returnByValue\<close>, so the script runs twice; for a
  \<^verbatim>\<open>NodeList\<close> and for \<^verbatim>\<open>HTMLHtmlElement\<close> it is the only
  \<^verbatim>\<open>Runtime.callFunctionOn\<close>, and the script runs once.
\<close>

theorem executeScript_runs_script_twice:
  assumes "getCDPSession H page w = (Inr s, w1)"
    and "reply_unit H (trace w1 @ [Send s Runtime_enable]) = Inr ()"
    and "reply_object H (trace w1 @ [Send s Runtime_enable, Send s (Runtime_evaluate ''window'')])
           = Inr window"
    and "first_call = Send s (Runtime_callFunctionOn (ro_objectId window)
                                (''function() { '' @ args_script @ '' }'')
                                (map (functionArg KEY) args_args) None)"
    and "second_call = Send s (Runtime_callFunctionOn (ro_objectId window)
                                (''function() { '' @ args_script @ '' }'')
                                (map (functionArg KEY) args_args) (Some True))"
    and "reply_object H (trace w1 @ [Send s Runtime_enable, Send s (Runtime_evaluate ''window''),
            first_call]) = Inr returnedRef"
    and "w2 = snd (executeScript H KEY page args_script args_args w)"
  shows "(ro_className returnedRef \<noteq> Some ''NodeList'' \<and>
          ro_className returnedRef \<noteq> Some ''HTMLHtmlElement'' \<longrightarrow>
            trace w2 = trace w1 @ [Send s Runtime_enable, Send s (Runtime_evaluate ''window''),
                                   first_call, second_call] \<and>
            callFunctionOn_count (drop (length (trace w1)) (trace w2)) = 2) \<and>
         (ro_className returnedRef = Some ''NodeList'' \<longrightarrow>
            trace w2 = trace w1 @ [Send s Runtime_enable, Send s (Runtime_evaluate ''window''),
                                   first_call,
                                   Send s (Runtime_getProperties (ro_objectId returnedRef) True)] \<and>
            callFunctionOn_count (drop (length (trace w1)) (trace w2)) = 1) \<and>
         (ro_className returnedRef = Some ''HTMLHtmlElement'' \<longrightarrow>
            trace w2 = trace w1 @ [Send s Runtime_enable, Send s (Runtime_evaluate ''window''),
                                   first_call] \<and>
            callFunctionOn_count (drop (length (trace w1)) (trace w2)) = 1)"
proof -
  note eq = executeScript_eq [OF assms(1,2,3) assms(6) [unfolded assms(4)], of ]
  show ?thesis
    unfolding assms(7) eq assms(4,5)
    by (simp add: Let_def callFunctionOn_count_def)
qed

lemma session_host0:
  "reply_unit H = (\<lambda>t. Inr ()) \<Longrightarrow>
   getCDPSession H 0 initial_world =
     (Inr 0, \<lparr>cdpSessionByPage = [(0, 0)], attached = [(0, 0)], created = 1,
              trace = [NewCDPSession 0]\<rparr>)"
  by (simp add: run_simps initial_world_def)

theorem executeScript_runs_script_twice_witness:
  "trace (snd (executeScript host0 ''element-6066'' 0 ''counter += 1'' [] initial_world)) =
     [NewCDPSession 0, Send 0 Runtime_enable, Send 0 (Runtime_evaluate ''window''),
      Send 0 (Runtime_callFunctionOn (Some ''obj-1'') ''function() { counter += 1 }'' [] None),
      Send 0 (Runtime_callFunctionOn (Some ''obj-1'') ''function() { counter += 1 }'' []
                (Some True))] \<and>
   callFunctionOn_count
     (trace (snd (executeScript host0 ''element-6066'' 0 ''counter += 1'' [] initial_world))) = 2 \<and>
   trace (snd (executeScript host_NodeList ''element-6066'' 0 ''counter += 1'' [] initial_world)) =
     [NewCDPSession 0, Send 0 Runtime_enable, Send 0 (Runtime_evaluate ''window''),
      Send 0 (Runtime_callFunctionOn (Some ''obj-2'') ''function() { counter += 1 }'' [] None),
      Send 0 (Runtime_getProperties (Some ''obj-2'') True)] \<and>
   callFunctionOn_count
     (trace (snd (executeScript host_NodeList ''element-6066'' 0 ''counter += 1'' [] initial_world)))
     = 1 \<and>
   trace (snd (executeScript host_HTMLHtmlElement ''element-6066'' 0 ''counter += 1'' []
                 initial_world)) =
     [NewCDPSession 0, Send 0 Runtime_enable, Send 0 (Runtime_evaluate ''window''),
      Send 0 (Runtime_callFunctionOn (Some ''obj-3'') ''function() { counter += 1 }'' [] None)] \<and>
   callFunctionOn_count
     (trace (snd (executeScript host_HTMLHtmlElement ''element-6066'' 0 ''counter += 1'' []
                    initial_world))) = 1"
proof -
  let ?w1 = "\<lparr>cdpSessionByPage = [(0, 0)], attached = [(0, 0)], created = 1,
              trace = [NewCDPSession 0 :: rat call]\<rparr>"
  have a: "getCDPSession host0 0 initial_world = (Inr 0, ?w1)"
    by (rule session_host0) (simp add: host0_def)
  have b: "getCDPSession host_NodeList 0 initial_world = (Inr 0, ?w1)"
    by (rule session_host0) (simp add: host_NodeList_def host0_def)
  have c: "getCDPSession host_HTMLHtmlElement 0 initial_world = (Inr 0, ?w1)"
    by (rule session_host0) (simp add: host_HTMLHtmlElement_def host0_def)
  from executeScript_runs_script_twice
      [where H = host0 and args_script = "''counter += 1''" and KEY = "''element-6066''"
         and args_args = "[]"
         and window = "\<lparr>ro_className = Some ''Object'', ro_objectId = Some ''obj-1'', ro_value = JNumber 42\<rparr>"
         and returnedRef = "\<lparr>ro_className = Some ''Object'', ro_objectId = Some ''obj-1'', ro_value = JNumber 42\<rparr>",
       OF a _ _ refl refl _ refl]
    executeScript_runs_script_twice
      [where H = host_NodeList and args_script = "''counter += 1''" and KEY = "''element-6066''"
         and args_args = "[]"
         and window = "\<lparr>ro_className = Some ''NodeList'', ro_objectId = Some ''obj-2'', ro_value = JUndefined\<rparr>"
         and returnedRef = "\<lparr>ro_className = Some ''NodeList'', ro_objectId = Some ''obj-2'', ro_value = JUndefined\<rparr>",
       OF b _ _ refl refl _ refl]
    executeScript_runs_script_twice
      [where H = host_HTMLHtmlElement and args_script = "''counter += 1''" and KEY = "''element-6066''"
         and args_args = "[]"
         and window = "\<lparr>ro_className = Some ''HTMLHtmlElement'', ro_objectId = Some ''obj-3'', ro_value = JUndefined\<rparr>"
         and returnedRef = "\<lparr>ro_className = Some ''HTMLHtmlElement'', ro_objectId = Some ''obj-3'', ro_value = JUndefined\<rparr>",
       OF c _ _ refl refl _ refl]
  show ?thesis
    by (simp add: host0_def host_NodeList_def host_HTMLHtmlElement_def callFunctionOn_count_def)
qed

section \<open>\<^verbatim>\<open>scrollPage\<close>: proofs\<close>

lemma scrollPage_entered:
  "reply_unit H (trace w @ [Page_evaluate page]) = Inr () \<Longrightarrow>
   scrollPage H page args_target w =
     scrollPage_evaluated H args_target (w\<lparr>trace := trace w @ [Page_evaluate page]\<rparr>)"
  by (simp add: scrollPage_def await_def issue_def Let_def)

lemma scrollPage_not_entered:
  "reply_unit H (trace w @ [Page_evaluate page]) = Inl e \<Longrightarrow>
   scrollPage H page args_target w = (Inl e, w\<lparr>trace := trace w @ [Page_evaluate page]\<rparr>)"
  by (simp add: scrollPage_def await_def issue_def Let_def)

lemma scrollPage_unsupported_no_scroll:
  assumes "args_target \<noteq> ''top''" and "args_target \<noteq> ''bottom''"
    and "args_target \<noteq> ''up''" and "args_target \<noteq> ''down''"
  shows "(\<exists>e. fst (scrollPage H page args_target w) = Inl e) \<and>
         snd (scrollPage H page args_target w) = w\<lparr>trace := trace w @ [Page_evaluate page]\<rparr>"
proof (cases "reply_unit H (trace w @ [Page_evaluate page])")
  case (Inl e)
  then show ?thesis by (simp add: scrollPage_not_entered)
next
  case (Inr u)
  with assms show ?thesis by (simp add: scrollPage_entered scrollPage_evaluated_def Let_def)
qed

lemma scrollPage_evaluated_eq:
  assumes "(case dom_scrollingElement H (trace w) of None \<Rightarrow> dom_body H (trace w) | Some e \<Rightarrow> Some e)
             = Some el"
    and "(case dom_visualViewport_height H (trace w) of None \<Rightarrow> 720 | Some h \<Rightarrow> h) = viewportHeight"
  shows "scrollPage_evaluated H target w =
     (if target = ''top'' then (Inr (), w\<lparr>trace := trace w @ [ScrollTo el 0]\<rparr>)
      else if target = ''bottom'' then
        (Inr (), w\<lparr>trace := trace w @ [ScrollTo el (dom_scrollHeight H (trace w) el)]\<rparr>)
      else if target = ''up'' then
        (Inr (), w\<lparr>trace := trace w @ [ScrollBy el (- (0.75 * viewportHeight))]\<rparr>)
      else if target = ''down'' then
        (Inr (), w\<lparr>trace := trace w @ [ScrollBy el (0.75 * viewportHeight)]\<rparr>)
      else (Inl (Error (''Unsupported scroll target '' @ target)), w))"
  unfolding scrollPage_evaluated_def Let_def assms scrollTo_def scrollBy_def
  by simp

text \<open>
  Claim C8. Once \<^verbatim>\<open>page.evaluate\<close> has entered the page: with an element to scroll,
  \<^verbatim>\<open>top\<close> calls \<^verbatim>\<open>scrollTo\<close> with top 0, \<^verbatim>\<open>bottom\<close> calls \<^verbatim>\<open>scrollTo\<close> with
  the element's \<^verbatim>\<open>scrollHeight\<close>, and with a visual viewport of height h, \<^verbatim>\<open>up\<close>
  and \<^verbatim>\<open>down\<close> call \<^verbatim>\<open>scrollBy\<close> with -(0.75 * h) and 0.75 * h; each is the only
  scroll call made. Every other target throws the unsupported-target error, which names the
  target, and makes no scroll call: the trace holds the \<^verbatim>\<open>page.evaluate\<close> call alone.
  Where the element then stands is the browser's part and is not modelled.
\<close>

theorem scrollPage_targets:
  assumes "t = trace w @ [Page_evaluate page]"
    and "reply_unit H t = Inr ()"
  shows "((case dom_scrollingElement H t of None \<Rightarrow> dom_body H t | Some e \<Rightarrow> Some e) = Some el \<longrightarrow>
            scrollPage H page ''top'' w = (Inr (), w\<lparr>trace := t @ [ScrollTo el 0]\<rparr>) \<and>
            scrollPage H page ''bottom'' w =
              (Inr (), w\<lparr>trace := t @ [ScrollTo el (dom_scrollHeight H t el)]\<rparr>) \<and>
            (dom_visualViewport_height H t = Some viewportHeight \<longrightarrow>
               scrollPage H page ''up'' w =
                 (Inr (), w\<lparr>trace := t @ [ScrollBy el (- (0.75 * viewportHeight))]\<rparr>) \<and>
               scrollPage H page ''down'' w =
                 (Inr (), w\<lparr>trace := t @ [ScrollBy el (0.75 * viewportHeight)]\<rparr>))) \<and>
         (\<forall>target. target \<noteq> ''top'' \<and> target \<noteq> ''bottom'' \<and> target \<noteq> ''up'' \<and> target \<noteq> ''down'' \<longrightarrow>
            scrollPage H page target w =
              (Inl (Error (''Unsupported scroll target '' @ target)), w\<lparr>trace := t\<rparr>))"
proof -
  let ?w = "w\<lparr>trace := t\<rparr>"
  from assms have enter: "\<And>target. scrollPage H page target w = scrollPage_evaluated H target ?w"
    by (simp add: scrollPage_entered)
  have other: "\<forall>target. target \<noteq> ''top'' \<and> target \<noteq> ''bottom'' \<and> target \<noteq> ''up'' \<and> target \<noteq> ''down'' \<longrightarrow>
            scrollPage H page target w =
              (Inl (Error (''Unsupported scroll target '' @ target)), ?w)"
    by (simp add: enter scrollPage_evaluated_def Let_def)
  have scroll: "scrollPage H page ''top'' w = (Inr (), w\<lparr>trace := t @ [ScrollTo el 0]\<rparr>) \<and>
            scrollPage H page ''bottom'' w =
              (Inr (), w\<lparr>trace := t @ [ScrollTo el (dom_scrollHeight H t el)]\<rparr>) \<and>
            (dom_visualViewport_height H t = Some viewportHeight \<longrightarrow>
               scrollPage H page ''up'' w =
                 (Inr (), w\<lparr>trace := t @ [ScrollBy el (- (0.75 * viewportHeight))]\<rparr>) \<and>
               scrollPage H page ''down'' w =
                 (Inr (), w\<lparr>trace := t @ [ScrollBy el (0.75 * viewportHeight)]\<rparr>))"
    if "(case dom_scrollingElement H t of None \<Rightarrow> dom_body H t | Some e \<Rightarrow> Some e) = Some el"
  proof -
    from that have el: "(case dom_scrollingElement H (trace ?w) of
        None \<Rightarrow> dom_body H (trace ?w) | Some e \<Rightarrow> Some e) = Some el"
      by (simp split: option.splits)
    note ev = scrollPage_evaluated_eq [OF el refl]
    show ?thesis by (simp add: enter ev)
  qed
  from scroll other show ?thesis by blast
qed

theorem scrollPage_targets_witness:
  "reply_unit host0 (trace initial_world @ [Page_evaluate 0]) = Inr () \<and>
   (case dom_scrollingElement host0 (trace initial_world @ [Page_evaluate 0]) of
      None \<Rightarrow> dom_body host0 (trace initial_world @ [Page_evaluate 0]) | Some e \<Rightarrow> Some e) = Some 1 \<and>
   dom_visualViewport_height host0 (trace initial_world @ [Page_evaluate 0]) = Some 800 \<and>
   trace (snd (scrollPage host0 0 ''top'' initial_world)) = [Page_evaluate 0, ScrollTo 1 0] \<and>
   trace (snd (scrollPage host0 0 ''bottom'' initial_world)) = [Page_evaluate 0, ScrollTo 1 3000] \<and>
   trace (snd (scrollPage host0 0 ''up'' initial_world)) = [Page_evaluate 0, ScrollBy 1 (- 600)] \<and>
   trace (snd (scrollPage host0 0 ''down'' initial_world)) = [Page_evaluate 0, ScrollBy 1 600] \<and>
   scrollPage host0 0 ''left'' initial_world =
     (Inl (Error ''Unsupported scroll target left''),
      initial_world\<lparr>trace := [Page_evaluate 0]\<rparr>)"
  using scrollPage_targets [where t = "trace initial_world @ [Page_evaluate 0]" and w = initial_world
      and page = 0 and H = host0 and el = 1 and viewportHeight = 800, OF refl]
  by (simp add: host0_def initial_world_def)

text \<open>
  In a page without a visual viewport the relative scrolls take 720 for the height, as the
  comment in the source says.
\<close>

lemma scrollPage_default_viewport:
  assumes "t = trace w @ [Page_evaluate page]"
    and "reply_unit H t = Inr ()"
    and "(case dom_scrollingElement H t of None \<Rightarrow> dom_body H t | Some e \<Rightarrow> Some e) = Some el"
    and "dom_visualViewport_height H t = None"
  shows "scrollPage H page ''up'' w = (Inr (), w\<lparr>trace := t @ [ScrollBy el (- (0.75 * 720))]\<rparr>) \<and>
         scrollPage H page ''down'' w = (Inr (), w\<lparr>trace := t @ [ScrollBy el (0.75 * 720)]\<rparr>)"
proof -
  let ?w = "w\<lparr>trace := t\<rparr>"
  from assms(3) have el: "(case dom_scrollingElement H (trace ?w) of
      None \<Rightarrow> dom_body H (trace ?w) | Some e \<Rightarrow> Some e) = Some el"
    by (simp split: option.splits)
  from assms(4) have vh: "(case dom_visualViewport_height H (trace ?w) of
      None \<Rightarrow> 720 | Some h \<Rightarrow> h) = 720" by simp
  from assms(1,2) have "\<And>target. scrollPage H page target w = scrollPage_evaluated H target ?w"
    by (simp add: scrollPage_entered)
  then show ?thesis
    by (simp add: scrollPage_evaluated_eq [OF el vh])
qed


lemma scrollPage_default_viewport_example:
  "trace (snd (scrollPage host_no_viewport 0 ''down'' initial_world)) =
     [Page_evaluate 0, ScrollBy 1 540]"
  by (simp add: scrollPage_def scrollPage_evaluated_def scrollBy_def await_def issue_def Let_def
      host_no_viewport_def host0_def initial_world_def)

end
